theory Spec2Isabelle
  imports Main "HOL-Library.AList" "HOL-Library.Sublist" "HOL-Library.Multiset"
begin

section \<open>Python primitives used by the statistics jobs\<close>

text \<open>
  The one-off statistics jobs of \<^verbatim>\<open>core/domain/stats_jobs_one_off.py\<close> are Python 2
  generators over strings, integers and dictionaries. The exceptions that the code can
  raise are values of \<open>py_error\<close>. A generator is modelled by what it has yielded so far
  together with the exception that ended it, if any.
\<close>

datatype py_error = ValueError | IndexError | KeyError

type_synonym 'a generator = "'a list \<times> py_error option"

text \<open>\<^verbatim>\<open>s.index(c)\<close>: the lowest position of \<open>c\<close>, or ValueError.\<close>

fun py_index :: "string \<Rightarrow> char \<Rightarrow> py_error + nat" where
  "py_index [] c = Inl ValueError"
| "py_index (x # xs) c =
     (if x = c then Inr 0
      else (case py_index xs c of Inl e \<Rightarrow> Inl e | Inr n \<Rightarrow> Inr (Suc n)))"

text \<open>
  Slice bounds: a negative bound counts from the end, and every bound is clipped to
  the string. \<^verbatim>\<open>s[i:]\<close>, \<^verbatim>\<open>s[:j]\<close> and \<^verbatim>\<open>s[i:j]\<close> never raise.
\<close>

definition py_bound :: "nat \<Rightarrow> int \<Rightarrow> nat" where
  "py_bound n i = (if i < 0 then nat (int n + i) else min n (nat i))"

definition py_slice_from :: "string \<Rightarrow> int \<Rightarrow> string" where
  "py_slice_from s i = drop (py_bound (length s) i) s"

definition py_slice_to :: "string \<Rightarrow> int \<Rightarrow> string" where
  "py_slice_to s j = take (py_bound (length s) j) s"

definition py_slice :: "string \<Rightarrow> int \<Rightarrow> int \<Rightarrow> string" where
  "py_slice s i j =
     take (py_bound (length s) j - py_bound (length s) i) (drop (py_bound (length s) i) s)"

text \<open>\<^verbatim>\<open>s[-1]\<close>: the last character, or IndexError on the empty string.\<close>

definition py_last :: "string \<Rightarrow> py_error + char" where
  "py_last s = (if s = [] then Inl IndexError else Inr (last s))"

text \<open>\<^verbatim>\<open>d[k]\<close> on a dictionary, here an association list: the value, or KeyError.\<close>

type_synonym py_dict = "(string \<times> string) list"

definition py_getitem :: "py_dict \<Rightarrow> string \<Rightarrow> py_error + string" where
  "py_getitem d k = (case map_of d k of None \<Rightarrow> Inl KeyError | Some v \<Rightarrow> Inr v)"

text \<open>\<^verbatim>\<open>'%d' % n\<close> and \<^verbatim>\<open>'%s' % n\<close> for an integer: its decimal digits, with a sign.\<close>

fun str_nat :: "nat \<Rightarrow> string" where
  "str_nat n =
     (if n < 10 then [''0123456789'' ! n]
      else str_nat (n div 10) @ [''0123456789'' ! (n mod 10)])"

definition str_int :: "int \<Rightarrow> string" where
  "str_int i = (if i < 0 then ''-'' @ str_nat (nat (- i)) else str_nat (nat i))"


section \<open>AnswersAudit: the composite identifier\<close>

definition HANDLER_NAME_COUNTER_KEY :: string where
  "HANDLER_NAME_COUNTER_KEY = ''HandlerCounter''"

definition HANDLER_FUZZY_RULE_COUNTER_KEY :: string where
  "HANDLER_FUZZY_RULE_COUNTER_KEY = ''FuzzyRuleCounter''"

definition HANDLER_DEFAULT_RULE_COUNTER_KEY :: string where
  "HANDLER_DEFAULT_RULE_COUNTER_KEY = ''DefaultRuleCounter''"

definition HANDLER_STANDARD_RULE_COUNTER_KEY :: string where
  "HANDLER_STANDARD_RULE_COUNTER_KEY = ''StandardRuleCounter''"

definition HANDLER_ERROR_RULE_COUNTER_KEY :: string where
  "HANDLER_ERROR_RULE_COUNTER_KEY = ''ErrorRuleCounter''"

text \<open>
  \<^verbatim>\<open>_get_consecutive_dot_count(string, idx)\<close>: the loop
  \<^verbatim>\<open>for i in range(idx, len(string))\<close> returns \<open>i - idx\<close> at the first character that
  is not a dot, and 0 when it runs off the end of the string.
\<close>

function dot_count_from :: "string \<Rightarrow> nat \<Rightarrow> nat \<Rightarrow> nat" where
  "dot_count_from string idx i =
     (if i < length string
      then (if string ! i \<noteq> CHR ''.'' then i - idx else dot_count_from string idx (Suc i))
      else 0)"
  by pat_completeness auto
termination
  by (relation "measure (\<lambda>(string, idx, i). length string - i)") auto

declare dot_count_from.simps [simp del]

definition get_consecutive_dot_count :: "string \<Rightarrow> nat \<Rightarrow> nat" where
  "get_consecutive_dot_count string idx = dot_count_from string idx idx"

text \<open>
  The two statements that \<^verbatim>\<open>AnswersAudit.map\<close> repeats three times:
  \<^verbatim>\<open>period_idx = item_id.index('.')\<close> and
  \<^verbatim>\<open>period_idx += _get_consecutive_dot_count(item_id, period_idx) - 1\<close>.
\<close>

definition segment_boundary :: "string \<Rightarrow> py_error + int" where
  "segment_boundary item_id =
     (case py_index item_id CHR ''.'' of
        Inl e \<Rightarrow> Inl e
      | Inr period_idx \<Rightarrow>
          Inr (int period_idx + (int (get_consecutive_dot_count item_id period_idx) - 1)))"

text \<open>
  Lines 154 to 177 of \<^verbatim>\<open>AnswersAudit.map\<close>: three boundaries, each followed by
  \<^verbatim>\<open>item_id = item_id[period_idx+1:]\<close>. The result lists \<open>exp_id\<close> and \<open>state_name\<close>
  (the assignments \<^verbatim>\<open>item_id[:period_idx]\<close> that the source keeps as comments),
  \<open>handler_name\<close> and \<open>rule_str\<close>. All three \<^verbatim>\<open>index\<close> calls come before the
  first \<^verbatim>\<open>yield\<close>.
\<close>

definition parse_item_id :: "string \<Rightarrow> py_error + (string \<times> string \<times> string \<times> string)" where
  "parse_item_id item_id =
     (case segment_boundary item_id of
        Inl e \<Rightarrow> Inl e
      | Inr period_idx1 \<Rightarrow>
          let exp_id = py_slice_to item_id period_idx1;
              item_id1 = py_slice_from item_id (period_idx1 + 1)
          in (case segment_boundary item_id1 of
                Inl e \<Rightarrow> Inl e
              | Inr period_idx2 \<Rightarrow>
                  let state_name = py_slice_to item_id1 period_idx2;
                      item_id2 = py_slice_from item_id1 (period_idx2 + 1)
                  in (case segment_boundary item_id2 of
                        Inl e \<Rightarrow> Inl e
                      | Inr period_idx3 \<Rightarrow>
                          let handler_name = py_slice_to item_id2 period_idx3;
                              rule_str = py_slice_from item_id2 (period_idx3 + 1)
                          in Inr (exp_id, state_name, handler_name, rule_str))))"


section \<open>AnswersAudit: the mapper\<close>

record StateRuleAnswerLogModel =
  id' :: string

text \<open>
  Lines 179 to 199: the pair that the mapper yields for the rule string. The condition
  \<^verbatim>\<open>'(' in rule_str and rule_str[-1] == ')'\<close> reads the last character only when the
  string contains an opening parenthesis.
\<close>

definition rule_emission :: "string \<Rightarrow> py_error + (string \<times> py_dict)" where
  "rule_emission rule_str =
     (if rule_str = ''FuzzyMatches''
      then Inr (rule_str, [(''reduce_type'', HANDLER_FUZZY_RULE_COUNTER_KEY)])
      else if rule_str = ''Default''
      then Inr (rule_str, [(''reduce_type'', HANDLER_DEFAULT_RULE_COUNTER_KEY)])
      else
        (case (if CHR ''('' \<in> set rule_str
               then (case py_last rule_str of Inl e \<Rightarrow> Inl e | Inr c \<Rightarrow> Inr (c = CHR '')''))
               else Inr False) of
           Inl e \<Rightarrow> Inl e
         | Inr True \<Rightarrow>
             (case py_index rule_str CHR ''('' of
                Inl e \<Rightarrow> Inl e
              | Inr index \<Rightarrow>
                  let rule_type = py_slice rule_str 0 (int index);
                      rule_args = py_slice rule_str (int index + 1) (- 1)
                  in Inr (rule_type,
                       [(''reduce_type'', HANDLER_STANDARD_RULE_COUNTER_KEY),
                        (''rule_str'', rule_str),
                        (''rule_args'', rule_args)]))
         | Inr False \<Rightarrow>
             Inr (rule_str, [(''reduce_type'', HANDLER_ERROR_RULE_COUNTER_KEY)])))"

definition AnswersAudit_map :: "StateRuleAnswerLogModel \<Rightarrow> (string \<times> py_dict) generator" where
  "AnswersAudit_map item =
     (case parse_item_id (id' item) of
        Inl e \<Rightarrow> ([], Some e)
      | Inr (exp_id, state_name, handler_name, rule_str) \<Rightarrow>
          let handler_pair =
                (handler_name,
                 [(''reduce_type'', HANDLER_NAME_COUNTER_KEY), (''rule_spec_str'', id' item)])
          in (case rule_emission rule_str of
                Inl e \<Rightarrow> ([handler_pair], Some e)
              | Inr rule_pair \<Rightarrow> ([handler_pair, rule_pair], None)))"



section \<open>AnswersAudit: the reducer\<close>

text \<open>
  The reducer receives the values of one key as strings and reads each with
  \<^verbatim>\<open>ast.literal_eval\<close>. How the job framework writes a value as a string is not part
  of this module, so the reader \<open>literal_eval\<close> is a parameter: it returns the dictionary
  or raises. The text that \<^verbatim>\<open>'%s'\<close> gives for the list \<open>rule_spec_strs\<close> (Python's
  \<^verbatim>\<open>repr\<close> of a list of strings, whose form depends on the string type that the
  storage layer hands over) is the parameter \<open>str_list\<close>.
\<close>

text \<open>Truth value of \<open>reduce_type\<close>: \<^verbatim>\<open>None\<close> and the empty string are false.\<close>

definition truthy :: "string option \<Rightarrow> bool" where
  "truthy reduce_type = (case reduce_type of None \<Rightarrow> False | Some t \<Rightarrow> t \<noteq> [])"

fun yield :: "'a \<Rightarrow> 'a list \<times> 'b \<Rightarrow> 'a list \<times> 'b" where
  "yield x (out, r) = (x # out, r)"

text \<open>Lines 205 to 210: the first loop, which settles \<open>reduce_type\<close>.\<close>

fun reduce_type_loop ::
  "(string \<Rightarrow> py_error + py_dict) \<Rightarrow> string list \<Rightarrow> string option
     \<Rightarrow> string list \<times> (py_error + string option)" where
  "reduce_type_loop literal_eval [] reduce_type = ([], Inr reduce_type)"
| "reduce_type_loop literal_eval (value_str # rest) reduce_type =
     (case literal_eval value_str of
        Inl e \<Rightarrow> ([], Inl e)
      | Inr value_dict \<Rightarrow>
          if truthy reduce_type
          then (case py_getitem value_dict ''reduce_type'' of
                  Inl e \<Rightarrow> ([], Inl e)
                | Inr t \<Rightarrow>
                    if reduce_type \<noteq> Some t
                    then yield ''Internal error 1'' (reduce_type_loop literal_eval rest reduce_type)
                    else reduce_type_loop literal_eval rest reduce_type)
          else (case py_getitem value_dict ''reduce_type'' of
                  Inl e \<Rightarrow> ([], Inl e)
                | Inr t \<Rightarrow> reduce_type_loop literal_eval rest (Some t)))"

text \<open>Lines 213 to 216: the loop that collects \<open>rule_spec_strs\<close>.\<close>

fun rule_spec_strs_loop ::
  "(string \<Rightarrow> py_error + py_dict) \<Rightarrow> string list \<Rightarrow> py_error + string list" where
  "rule_spec_strs_loop literal_eval [] = Inr []"
| "rule_spec_strs_loop literal_eval (value_str # rest) =
     (case literal_eval value_str of
        Inl e \<Rightarrow> Inl e
      | Inr value_dict \<Rightarrow>
          (case py_getitem value_dict ''rule_spec_str'' of
             Inl e \<Rightarrow> Inl e
           | Inr s \<Rightarrow>
               (case rule_spec_strs_loop literal_eval rest of
                  Inl e \<Rightarrow> Inl e
                | Inr rule_spec_strs \<Rightarrow> Inr (s # rule_spec_strs))))"

definition AnswersAudit_reduce ::
  "(string \<Rightarrow> py_error + py_dict) \<Rightarrow> (string list \<Rightarrow> string) \<Rightarrow> string \<Rightarrow> string list
     \<Rightarrow> string generator" where
  "AnswersAudit_reduce literal_eval str_list k stringified_values =
     (let reduce_count = length stringified_values
      in case reduce_type_loop literal_eval stringified_values None of
           (out, Inl e) \<Rightarrow> (out, Some e)
         | (out, Inr reduce_type) \<Rightarrow>
             if reduce_type = Some HANDLER_NAME_COUNTER_KEY
             then (case rule_spec_strs_loop literal_eval stringified_values of
                     Inl e \<Rightarrow> (out, Some e)
                   | Inr rule_spec_strs \<Rightarrow>
                       (out @ [''Found handler \"'' @ k @ ''\" '' @ str_int (int reduce_count)
                               @ '' time(s), ALL RULE SPEC STRINGS: '' @ [CHR 0x0A]
                               @ str_list rule_spec_strs],
                        None))
             else if reduce_type = Some HANDLER_FUZZY_RULE_COUNTER_KEY
             then (out @ [''Found fuzzy rules '' @ str_int (int reduce_count) @ '' time(s)''], None)
             else if reduce_type = Some HANDLER_DEFAULT_RULE_COUNTER_KEY
             then (out @ [''Found default rules '' @ str_int (int reduce_count) @ '' time(s)''], None)
             else if reduce_type = Some HANDLER_STANDARD_RULE_COUNTER_KEY
             then (out @ [''Found rule type \"'' @ k @ ''\" '' @ str_int (int reduce_count)
                          @ '' time(s)''], None)
             else if reduce_type = Some HANDLER_ERROR_RULE_COUNTER_KEY
             then (out @ [''Encountered invalid rule string '' @ str_int (int reduce_count)
                          @ '' time(s) (is it too long?): \"'' @ k @ ''\"''], None)
             else (out @ [''Internal error 2''], None))"


section \<open>StatisticsAudit: records and the mapper\<close>

definition STATE_COUNTER_ERROR_KEY :: string where
  "STATE_COUNTER_ERROR_KEY = ''State Counter ERROR''"

text \<open>
  A state's hit counts: each state name with the \<^verbatim>\<open>'first_entry_count'\<close> entry of its
  counts dictionary, the only entry that the job reads. The order of the list is the
  order in which the dictionary is iterated.
\<close>

type_synonym state_hits = "(string \<times> int) list"

record StateCounterModel =
  key :: string
  first_entry_count :: int

record ExplorationAnnotationsModel =
  exploration_id :: "string option"
  version :: string
  num_starts :: int
  num_completions :: int
  state_hit_counts :: state_hits

datatype stats_item =
  StateCounter StateCounterModel
| ExplorationAnnotations ExplorationAnnotationsModel

text \<open>The dictionary that the mapper yields for an annotation, and the reducer reads.\<close>

record annotation_dict =
  version :: string
  starts :: int
  completions :: int
  state_hit :: state_hits

datatype stats_value = Message string | Annotation annotation_dict

fun StatisticsAudit_map :: "stats_item \<Rightarrow> (string \<times> stats_value) generator" where
  "StatisticsAudit_map (StateCounter item) =
     (if first_entry_count item < 0
      then ([(STATE_COUNTER_ERROR_KEY,
              Message (''Less than 0: '' @ key item @ '' '' @ str_int (first_entry_count item)))],
            None)
      else ([], None))"
| "StatisticsAudit_map (ExplorationAnnotations item) =
     (case exploration_id item of
        None \<Rightarrow> ([], None)
      | Some exp_id \<Rightarrow>
          ([(exp_id,
             Annotation \<lparr>version = ExplorationAnnotationsModel.version item,
                         starts = num_starts item,
                         completions = num_completions item,
                         state_hit = state_hit_counts item\<rparr>)],
           None))"


section \<open>StatisticsAudit: the reducer\<close>

text \<open>
  The reducer yields each line as a tuple of one string; the model keeps the string.
  Its values are read with \<^verbatim>\<open>ast.literal_eval\<close>, the parameter \<open>literal_eval\<close>, as in
  the other reducer.
\<close>

text \<open>
  The accumulators of lines 69 to 77. The two hit maps are
  \<^verbatim>\<open>collections.defaultdict(int)\<close>: reading a missing key gives 0 and stores it.
\<close>

record audit_totals =
  all_starts :: int
  all_completions :: int
  all_state_hit :: state_hits
  sum_starts :: int
  sum_completions :: int
  sum_state_hit :: state_hits

definition initial_totals :: audit_totals where
  "initial_totals =
     \<lparr>all_starts = 0, all_completions = 0, all_state_hit = [],
      sum_starts = 0, sum_completions = 0, sum_state_hit = []\<rparr>"

definition defaultdict_get :: "state_hits \<Rightarrow> string \<Rightarrow> int \<times> state_hits" where
  "defaultdict_get d state_name =
     (case map_of d state_name of
        None \<Rightarrow> (0, d @ [(state_name, 0)])
      | Some v \<Rightarrow> (v, d))"

text \<open>Lines 81 to 95: the three checks on one value.\<close>

definition value_checks :: "string \<Rightarrow> annotation_dict \<Rightarrow> string list" where
  "value_checks k value =
     (if starts value < 0
      then [''Negative start count: exp_id:'' @ k @ '' version:'' @ version value
            @ '' starts:'' @ str_int (starts value)]
      else [])
     @ (if completions value < 0
        then [''Negative completion count: exp_id:'' @ k @ '' version:'' @ version value
              @ '' completions:'' @ str_int (completions value)]
        else [])
     @ (if completions value > starts value
        then [''Completions > starts: exp_id:'' @ k @ '' version:'' @ version value
              @ '' '' @ str_int (completions value) @ ''>'' @ str_int (starts value)]
        else [])"

text \<open>
  Lines 97 to 106. \<open>VERSION_ALL\<close> is \<^verbatim>\<open>stats_jobs_continuous.VERSION_ALL\<close>, a constant of
  another module, and a parameter here.
\<close>

definition accumulate :: "string \<Rightarrow> annotation_dict \<Rightarrow> audit_totals \<Rightarrow> audit_totals" where
  "accumulate VERSION_ALL value t =
     (if version value = VERSION_ALL
      then t\<lparr>all_starts := starts value,
             all_completions := completions value,
             all_state_hit :=
               fold (\<lambda>(state_name, counts) d. AList.update state_name counts d)
                 (state_hit value) (all_state_hit t)\<rparr>
      else t\<lparr>sum_starts := sum_starts t + starts value,
             sum_completions := sum_completions t + completions value,
             sum_state_hit :=
               fold (\<lambda>(state_name, counts) d.
                       (case defaultdict_get d state_name of
                          (v, d') \<Rightarrow> AList.update state_name (v + counts) d'))
                 (state_hit value) (sum_state_hit t)\<rparr>)"

text \<open>Lines 79 to 106: the loop over the values.\<close>

fun values_loop ::
  "(string \<Rightarrow> py_error + annotation_dict) \<Rightarrow> string \<Rightarrow> string \<Rightarrow> string list \<Rightarrow> audit_totals
     \<Rightarrow> string list \<times> (py_error + audit_totals)" where
  "values_loop literal_eval VERSION_ALL k [] t = ([], Inr t)"
| "values_loop literal_eval VERSION_ALL k (value_str # rest) t =
     (case literal_eval value_str of
        Inl e \<Rightarrow> ([], Inl e)
      | Inr value \<Rightarrow>
          (case values_loop literal_eval VERSION_ALL k rest (accumulate VERSION_ALL value t) of
             (out, r) \<Rightarrow> (value_checks k value @ out, r)))"

text \<open>Lines 108 to 115.\<close>

definition totals_check :: "string \<Rightarrow> audit_totals \<Rightarrow> string list" where
  "totals_check k t =
     (if sum_starts t \<noteq> all_starts t
      then [''Non-all != all for starts: exp_id:'' @ k @ '' sum: '' @ str_int (sum_starts t)
            @ '' all: '' @ str_int (all_starts t)]
      else [])
     @ (if sum_completions t \<noteq> all_completions t
        then [''Non-all != all for completions: exp_id:'' @ k @ '' sum: ''
              @ str_int (sum_completions t) @ '' all: '' @ str_int (all_completions t)]
        else [])"

text \<open>
  Lines 118 to 129: one round of the loop over the state names of \<open>all_state_hit\<close>.
  The name comes from \<open>all_state_hit\<close> itself, so reading \<^verbatim>\<open>all_state_hit[state_name]\<close>
  stores nothing. Reading \<^verbatim>\<open>sum_state_hit[state_name]\<close> in the second condition stores
  0 for a missing name, so the round returns the summed map as well.
\<close>

definition state_hit_step ::
  "string \<Rightarrow> state_hits \<Rightarrow> string \<Rightarrow> state_hits \<Rightarrow> string list \<times> state_hits" where
  "state_hit_step k all_hit state_name sum_hit =
     (case defaultdict_get all_hit state_name of
        (all_v, _) \<Rightarrow>
          if map_of sum_hit state_name = None \<and> all_v \<noteq> 0
          then ([''state hit count not same exp_id:'' @ k @ '' state:'' @ state_name
                 @ '', all:'' @ str_int all_v @ '' sum: null''],
                sum_hit)
          else (case defaultdict_get sum_hit state_name of
                  (sum_v, sum_hit') \<Rightarrow>
                    if all_v \<noteq> sum_v
                    then ([''state hit count not same exp_id: '' @ k @ '' state: '' @ state_name
                           @ '' all: '' @ str_int all_v @ '' sum:'' @ str_int sum_v],
                          sum_hit')
                    else ([], sum_hit')))"

text \<open>Line 117: \<^verbatim>\<open>for state_name in all_state_hit\<close>.\<close>

fun state_hit_loop :: "string \<Rightarrow> state_hits \<Rightarrow> string list \<Rightarrow> state_hits \<Rightarrow> string list" where
  "state_hit_loop k all_hit [] sum_hit = []"
| "state_hit_loop k all_hit (state_name # rest) sum_hit =
     (case state_hit_step k all_hit state_name sum_hit of
        (out, sum_hit') \<Rightarrow> out @ state_hit_loop k all_hit rest sum_hit')"

definition StatisticsAudit_reduce ::
  "(string \<Rightarrow> py_error + annotation_dict) \<Rightarrow> string \<Rightarrow> string \<Rightarrow> string list
     \<Rightarrow> string generator" where
  "StatisticsAudit_reduce literal_eval VERSION_ALL k stringified_values =
     (if k = STATE_COUNTER_ERROR_KEY
      then (stringified_values, None)
      else (case values_loop literal_eval VERSION_ALL k stringified_values initial_totals of
              (out, Inl e) \<Rightarrow> (out, Some e)
            | (out, Inr t) \<Rightarrow>
                (out @ totals_check k t
                     @ state_hit_loop k (all_state_hit t) (map fst (all_state_hit t))
                         (sum_state_hit t),
                 None)))"


section \<open>The job around the two functions\<close>

text \<open>
  Modelled from the spec: the job framework (\<^verbatim>\<open>core/jobs.py\<close>,
  \<^verbatim>\<open>BaseMapReduceJobManager\<close>) is not among the sources. The spec says that the mapper is
  called once per record and that a run is abandoned as a whole when a call fails: the
  map phase gives the pairs of all records in the order of the records, or nothing.
\<close>

definition map_phase :: "('r \<Rightarrow> ('k \<times> 'v) generator) \<Rightarrow> 'r list \<Rightarrow> ('k \<times> 'v) list option" where
  "map_phase mapper records =
     (if list_all (\<lambda>r. snd (mapper r) = None) records
      then Some (concat (map (\<lambda>r. fst (mapper r)) records))
      else None)"

text \<open>
  Modelled from the spec: the grouping is stable, all values of one key are presented
  together, in the order in which they were yielded.
\<close>

definition group_values :: "'k \<Rightarrow> ('k \<times> 'v) list \<Rightarrow> 'v list" where
  "group_values k pairs = map snd (filter (\<lambda>p. fst p = k) pairs)"

text \<open>
  Modelled from the spec: the reducer is called once per key with the values of that
  key as strings, and the lines of all calls are collected. The order of the keys is not
  fixed by the spec, so it is the parameter \<open>key_order\<close>; \<open>stringify\<close> is the way the
  framework writes a value as a string.
\<close>

definition reduce_phase ::
  "('v \<Rightarrow> string) \<Rightarrow> ('k \<Rightarrow> string list \<Rightarrow> 'o generator) \<Rightarrow> 'k list \<Rightarrow> ('k \<times> 'v) list
     \<Rightarrow> 'o list option" where
  "reduce_phase stringify reducer key_order pairs =
     (if list_all (\<lambda>k. snd (reducer k (map stringify (group_values k pairs))) = None) key_order
      then Some (concat (map (\<lambda>k. fst (reducer k (map stringify (group_values k pairs))))
                          key_order))
      else None)"

text \<open>
  Modelled from the spec: a run is the map phase, the grouping and the reduce phase;
  its result is the list of diagnostic lines, or nothing for an abandoned run.
\<close>

definition run_job ::
  "('r \<Rightarrow> ('k \<times> 'v) generator) \<Rightarrow> ('v \<Rightarrow> string) \<Rightarrow> ('k \<Rightarrow> string list \<Rightarrow> 'o generator)
     \<Rightarrow> 'k list \<Rightarrow> 'r list \<Rightarrow> 'o list option" where
  "run_job mapper stringify reducer key_order records =
     (case map_phase mapper records of
        None \<Rightarrow> None
      | Some pairs \<Rightarrow> reduce_phase stringify reducer key_order pairs)"


section \<open>Facts about the primitives\<close>

lemma py_index_Inl_iff: "py_index s c = Inl e \<longleftrightarrow> c \<notin> set s \<and> e = ValueError"
  by (induction s) (auto split: sum.splits)

lemma py_index_first: "c \<notin> set pre \<Longrightarrow> py_index (pre @ c # rest) c = Inr (length pre)"
  by (induction pre) auto

lemma py_index_Inr_mem: "py_index s c = Inr n \<Longrightarrow> c \<in> set s"
  using py_index_Inl_iff [of s c ValueError] by auto

lemma str_int_examples:
  "str_int 0 = ''0''" "str_int 1 = ''1''" "str_int 2 = ''2''" "str_int 3 = ''3''"
  "str_int 5 = ''5''" "str_int (- 4) = ''-4''" "str_int (- 3) = ''-3''"
  "str_int (- 12) = ''-12''"
  by code_simp+


section \<open>AnswersAudit: segment boundaries\<close>

lemma dot_count_from_all_dots:
  "(\<forall>j. i \<le> j \<and> j < length s \<longrightarrow> s ! j = CHR ''.'') \<Longrightarrow> dot_count_from s idx i = 0"
proof (induction s idx i rule: dot_count_from.induct)
  case (1 string idx i)
  show ?case
  proof (cases "i < length string")
    case True
    with "1.prems" have d: "string ! i = CHR ''.''" by simp
    have "dot_count_from string idx (Suc i) = 0"
    proof (rule "1.IH")
      show "i < length string" by (rule True)
      show "\<not> string ! i \<noteq> CHR ''.''" using d by simp
      show "\<forall>j. Suc i \<le> j \<and> j < length string \<longrightarrow> string ! j = CHR ''.''"
        using "1.prems" by simp
    qed
    then show ?thesis using True d by (subst dot_count_from.simps) simp
  next
    case False
    then show ?thesis by (subst dot_count_from.simps) simp
  qed
qed

lemma segment_boundary_Inl_iff:
  "segment_boundary s = Inl e \<longleftrightarrow> CHR ''.'' \<notin> set s \<and> e = ValueError"
proof (cases "py_index s CHR ''.''")
  case (Inl a)
  then show ?thesis using py_index_Inl_iff [of s "CHR ''.''" a]
    by (auto simp: segment_boundary_def)
next
  case (Inr n)
  then show ?thesis using py_index_Inr_mem [OF Inr]
    by (simp add: segment_boundary_def)
qed

lemma segment_boundary_run_to_end:
  assumes "CHR ''.'' \<notin> set pre" and "0 < n"
  shows "segment_boundary (pre @ replicate n CHR ''.'') = Inr (int (length pre) - 1)"
proof -
  obtain m where n: "n = Suc m" using assms(2) by (cases n) auto
  have idx: "py_index (pre @ replicate n CHR ''.'') CHR ''.'' = Inr (length pre)"
    using py_index_first [OF assms(1), of "replicate m CHR ''.''"] by (simp add: n)
  have "(pre @ replicate n CHR ''.'') ! j = CHR ''.''"
    if "length pre \<le> j" and "j < length (pre @ replicate n CHR ''.'')" for j
  proof -
    have "j - length pre < n" using that by simp
    then show ?thesis using that(1) by (simp add: nth_append)
  qed
  then have "dot_count_from (pre @ replicate n CHR ''.'') (length pre) (length pre) = 0"
    by (intro dot_count_from_all_dots) blast
  then show ?thesis
    by (simp add: segment_boundary_def idx get_consecutive_dot_count_def)
qed

text \<open>
  Claim C10. When every character of \<open>s\<close> from position \<open>i\<close> on is a dot,
  \<^verbatim>\<open>_get_consecutive_dot_count(s, i)\<close> returns 0, which is not the length \<open>len(s) - i\<close> of
  the run unless the run is empty. So for an identifier whose first run of dots reaches
  the end of the string, the boundary is one position before the first dot of the run.
\<close>

theorem dot_count_zero_at_end:
  "((\<forall>j. i \<le> j \<and> j < length s \<longrightarrow> s ! j = CHR ''.'') \<longrightarrow>
      get_consecutive_dot_count s i = 0
      \<and> (i < length s \<longrightarrow> get_consecutive_dot_count s i \<noteq> length s - i))
   \<and> (CHR ''.'' \<notin> set pre \<and> 0 < n \<longrightarrow>
        segment_boundary (pre @ replicate n CHR ''.'') = Inr (int (length pre) - 1))"
  using dot_count_from_all_dots [of i s i] segment_boundary_run_to_end [of pre n]
  by (auto simp: get_consecutive_dot_count_def)

theorem dot_count_zero_at_end_witness:
  "get_consecutive_dot_count ''ab..'' 2 = 0
   \<and> get_consecutive_dot_count ''ab..'' 2 \<noteq> length ''ab..'' - 2
   \<and> segment_boundary ''ab..'' = Inr 1"
proof -
  have "''ab..'' ! j = CHR ''.''" if "2 \<le> j" and "j < length ''ab..''" for j
  proof -
    have "j = 2 \<or> j = 3" using that by auto
    then show ?thesis by auto
  qed
  then have h: "\<forall>j. 2 \<le> j \<and> j < length ''ab..'' \<longrightarrow> ''ab..'' ! j = CHR ''.''" by blast
  show ?thesis
    using dot_count_zero_at_end [of 2 "''ab..''" "''ab''" 2] h by (simp add: numeral_2_eq_2)
qed


section \<open>AnswersAudit: parsing the identifier\<close>

lemma parse_item_id_step1:
  "CHR ''.'' \<notin> set s \<Longrightarrow> parse_item_id s = Inl ValueError"
  using segment_boundary_Inl_iff [of s ValueError] by (simp add: parse_item_id_def)

lemma parse_item_id_step2:
  assumes "segment_boundary s = Inr p1"
    and "CHR ''.'' \<notin> set (py_slice_from s (p1 + 1))"
  shows "parse_item_id s = Inl ValueError"
  using assms segment_boundary_Inl_iff [of "py_slice_from s (p1 + 1)" ValueError]
  by (simp add: parse_item_id_def)

lemma parse_item_id_step3:
  assumes "segment_boundary s = Inr p1"
    and "segment_boundary (py_slice_from s (p1 + 1)) = Inr p2"
    and "CHR ''.'' \<notin> set (py_slice_from (py_slice_from s (p1 + 1)) (p2 + 1))"
  shows "parse_item_id s = Inl ValueError"
  using assms
    segment_boundary_Inl_iff [of "py_slice_from (py_slice_from s (p1 + 1)) (p2 + 1)" ValueError]
  by (simp add: parse_item_id_def)

lemma map_of_parse_error:
  "parse_item_id (id' item) = Inl e \<Longrightarrow> AnswersAudit_map item = ([], Some e)"
  by (simp add: AnswersAudit_map_def)

lemma boundary_examples:
  "segment_boundary ''a.bc'' = Inr 1" "segment_boundary ''a.b.c'' = Inr 1"
  "py_slice_from ''a.b.c'' 2 = ''b.c''" "segment_boundary ''b.c'' = Inr 1"
  "py_slice_from ''b.c'' 2 = ''c''" "py_slice_from ''a.bc'' 2 = ''bc''"
  by code_simp+

text \<open>
  Claim C5. When the identifier that is left at the first, the second or the third
  parsing step contains no dot, \<^verbatim>\<open>AnswersAudit.map\<close> yields no pair and ends with the
  ValueError of \<^verbatim>\<open>index\<close>, which nothing in the mapper catches.
\<close>

theorem map_raises_without_delimiter:
  "(CHR ''.'' \<notin> set (id' item) \<longrightarrow> AnswersAudit_map item = ([], Some ValueError))
   \<and> (segment_boundary (id' item) = Inr p1
        \<and> CHR ''.'' \<notin> set (py_slice_from (id' item) (p1 + 1))
       \<longrightarrow> AnswersAudit_map item = ([], Some ValueError))
   \<and> (segment_boundary (id' item) = Inr p1
        \<and> segment_boundary (py_slice_from (id' item) (p1 + 1)) = Inr p2
        \<and> CHR ''.'' \<notin> set (py_slice_from (py_slice_from (id' item) (p1 + 1)) (p2 + 1))
       \<longrightarrow> AnswersAudit_map item = ([], Some ValueError))"
  using parse_item_id_step1 [of "id' item"] parse_item_id_step2 [of "id' item" p1]
    parse_item_id_step3 [of "id' item" p1 p2] map_of_parse_error [of item ValueError]
  by blast

theorem map_raises_without_delimiter_witness:
  "AnswersAudit_map \<lparr>id' = ''abc''\<rparr> = ([], Some ValueError)
   \<and> AnswersAudit_map \<lparr>id' = ''a.bc''\<rparr> = ([], Some ValueError)
   \<and> AnswersAudit_map \<lparr>id' = ''a.b.c''\<rparr> = ([], Some ValueError)"
  using map_raises_without_delimiter [of "\<lparr>id' = ''abc''\<rparr>" 0 0]
    map_raises_without_delimiter [of "\<lparr>id' = ''a.bc''\<rparr>" 1 0]
    map_raises_without_delimiter [of "\<lparr>id' = ''a.b.c''\<rparr>" 1 1]
  by (simp add: boundary_examples)

text \<open>
  Claim C1, as the source has it. A run of dots ends a segment at its last dot, and the
  dots before it stay at the end of that segment. For \<^verbatim>\<open>12..3.state.Handler.Equals(x)\<close>
  the first segment is \<^verbatim>\<open>12.\<close>, with one literal dot; the next segments are \<^verbatim>\<open>3\<close> and
  \<^verbatim>\<open>state\<close>, and \<^verbatim>\<open>Handler.Equals(x)\<close> is left as the rule string. The mapper yields the
  handler pair under the key \<^verbatim>\<open>state\<close> and the rule pair under \<^verbatim>\<open>Handler.Equals\<close>.
\<close>

theorem parse_run_of_dots:
  "parse_item_id ''12..3.state.Handler.Equals(x)''
     = Inr (''12.'', ''3'', ''state'', ''Handler.Equals(x)'')
   \<and> AnswersAudit_map \<lparr>id' = ''12..3.state.Handler.Equals(x)''\<rparr>
     = ([(''state'', [(''reduce_type'', HANDLER_NAME_COUNTER_KEY),
                      (''rule_spec_str'', ''12..3.state.Handler.Equals(x)'')]),
         (''Handler.Equals'', [(''reduce_type'', HANDLER_STANDARD_RULE_COUNTER_KEY),
                               (''rule_str'', ''Handler.Equals(x)''),
                               (''rule_args'', ''x'')])], None)"
  by code_simp

text \<open>
  Claim C1, as the spec words it, fails on this identifier: the segments after the
  first are not \<^verbatim>\<open>state\<close>, \<^verbatim>\<open>Handler\<close> and \<^verbatim>\<open>Equals(x)\<close>, and the keys of the two
  pairs that the mapper yields are not \<^verbatim>\<open>Handler\<close> and \<^verbatim>\<open>Equals\<close>.
\<close>

theorem parse_run_of_dots_not_as_claimed:
  "map_sum id snd (parse_item_id ''12..3.state.Handler.Equals(x)'')
     \<noteq> Inr (''state'', ''Handler'', ''Equals(x)'')
   \<and> map fst (fst (AnswersAudit_map \<lparr>id' = ''12..3.state.Handler.Equals(x)''\<rparr>))
     \<noteq> [''Handler'', ''Equals'']"
  by code_simp


section \<open>AnswersAudit: the pair for the rule string\<close>

lemma rule_emission_standard:
  assumes "CHR ''('' \<notin> set rule_type"
    and "rule_type @ ''('' @ rule_args @ '')'' \<noteq> ''FuzzyMatches''"
    and "rule_type @ ''('' @ rule_args @ '')'' \<noteq> ''Default''"
  shows "rule_emission (rule_type @ ''('' @ rule_args @ '')'') =
           Inr (rule_type,
                [(''reduce_type'', HANDLER_STANDARD_RULE_COUNTER_KEY),
                 (''rule_str'', rule_type @ ''('' @ rule_args @ '')''),
                 (''rule_args'', rule_args)])"
proof -
  let ?s = "rule_type @ ''('' @ rule_args @ '')''"
  have idx: "py_index ?s CHR ''('' = Inr (length rule_type)"
    using py_index_first [OF assms(1), of "rule_args @ '')''"] by simp
  have lst: "py_last ?s = Inr CHR '')''"
    by (simp add: py_last_def)
  have ty: "py_slice ?s 0 (int (length rule_type)) = rule_type"
    by (simp add: py_slice_def py_bound_def)
  have args: "py_slice ?s (int (length rule_type) + 1) (- 1) = rule_args"
    by (simp add: py_slice_def py_bound_def nat_add_distrib)
  show ?thesis
    using assms(2,3) by (simp add: rule_emission_def idx lst ty args del: append.simps append_assoc)
qed

lemma standard_shape:
  assumes "CHR ''('' \<in> set s" and "last s = CHR '')''"
  shows "\<exists>rule_type rule_args. s = rule_type @ ''('' @ rule_args @ '')'' \<and> CHR ''('' \<notin> set rule_type"
proof -
  from split_list_first [OF assms(1)] obtain ty rest
    where s: "s = ty @ CHR ''('' # rest" and ty: "CHR ''('' \<notin> set ty" by blast
  have "rest \<noteq> []" using assms(2) s by auto
  then have "rest = butlast rest @ [last rest]" by simp
  moreover have "last rest = CHR '')''" using assms(2) s \<open>rest \<noteq> []\<close> by simp
  ultimately have "s = ty @ ''('' @ butlast rest @ '')''" using s by simp
  with ty show ?thesis by blast
qed

lemma rule_emission_error:
  assumes "s \<noteq> ''FuzzyMatches''" and "s \<noteq> ''Default''"
    and "\<not> (CHR ''('' \<in> set s \<and> last s = CHR '')'')"
  shows "rule_emission s = Inr (s, [(''reduce_type'', HANDLER_ERROR_RULE_COUNTER_KEY)])"
  using assms by (auto simp: rule_emission_def py_last_def)

text \<open>
  Claim C7. The classification of the rule string never raises and gives exactly one of
  four pairs. \<^verbatim>\<open>FuzzyMatches\<close> and \<^verbatim>\<open>Default\<close> get the fuzzy and the default counter.
  Any other string that contains an opening parenthesis and ends with a closing one is
  \<open>rule_type\<close>, \<^verbatim>\<open>(\<close>, \<open>rule_args\<close>, \<^verbatim>\<open>)\<close> with no opening parenthesis in \<open>rule_type\<close>, and
  gets the standard counter under the key \<open>rule_type\<close>, with \<open>rule_args\<close>. Every other
  string gets the error counter under the string itself.
\<close>

theorem rule_emission_classification:
  "(\<exists>pair. rule_emission s = Inr pair)
   \<and> (s = ''FuzzyMatches'' \<longrightarrow>
        rule_emission s = Inr (''FuzzyMatches'', [(''reduce_type'', HANDLER_FUZZY_RULE_COUNTER_KEY)]))
   \<and> (s = ''Default'' \<longrightarrow>
        rule_emission s = Inr (''Default'', [(''reduce_type'', HANDLER_DEFAULT_RULE_COUNTER_KEY)]))
   \<and> (s \<noteq> ''FuzzyMatches'' \<and> s \<noteq> ''Default'' \<and> CHR ''('' \<in> set s \<and> last s = CHR '')'' \<longrightarrow>
        (\<exists>rule_type rule_args.
            s = rule_type @ ''('' @ rule_args @ '')'' \<and> CHR ''('' \<notin> set rule_type
            \<and> rule_emission s =
                Inr (rule_type,
                     [(''reduce_type'', HANDLER_STANDARD_RULE_COUNTER_KEY),
                      (''rule_str'', s),
                      (''rule_args'', rule_args)])))
   \<and> (s \<noteq> ''FuzzyMatches'' \<and> s \<noteq> ''Default'' \<and> \<not> (CHR ''('' \<in> set s \<and> last s = CHR '')'') \<longrightarrow>
        rule_emission s = Inr (s, [(''reduce_type'', HANDLER_ERROR_RULE_COUNTER_KEY)]))"
proof -
  have fuzzy: "rule_emission ''FuzzyMatches'' =
      Inr (''FuzzyMatches'', [(''reduce_type'', HANDLER_FUZZY_RULE_COUNTER_KEY)])"
    by (simp add: rule_emission_def)
  have default: "rule_emission ''Default'' =
      Inr (''Default'', [(''reduce_type'', HANDLER_DEFAULT_RULE_COUNTER_KEY)])"
    by (simp add: rule_emission_def)
  have standard: "\<exists>rule_type rule_args.
            s = rule_type @ ''('' @ rule_args @ '')'' \<and> CHR ''('' \<notin> set rule_type
            \<and> rule_emission s =
                Inr (rule_type,
                     [(''reduce_type'', HANDLER_STANDARD_RULE_COUNTER_KEY),
                      (''rule_str'', s),
                      (''rule_args'', rule_args)])"
    if "s \<noteq> ''FuzzyMatches''" "s \<noteq> ''Default''" "CHR ''('' \<in> set s" "last s = CHR '')''"
  proof -
    from standard_shape [OF that(3,4)] obtain ty args
      where s: "s = ty @ ''('' @ args @ '')''" and ty: "CHR ''('' \<notin> set ty" by blast
    have "rule_emission (ty @ ''('' @ args @ '')'') =
           Inr (ty, [(''reduce_type'', HANDLER_STANDARD_RULE_COUNTER_KEY),
                 (''rule_str'', ty @ ''('' @ args @ '')''), (''rule_args'', args)])"
      using that(1,2) unfolding s by (intro rule_emission_standard [OF ty])
    then show ?thesis using s ty by blast
  qed
  have total: "\<exists>pair. rule_emission s = Inr pair"
    using fuzzy default standard rule_emission_error [of s] by (metis (full_types))
  show ?thesis
    using total fuzzy default standard rule_emission_error [of s] by blast
qed

theorem rule_emission_classification_witness:
  "(\<exists>rule_type rule_args.
      ''Equals(x)'' = rule_type @ ''('' @ rule_args @ '')'' \<and> CHR ''('' \<notin> set rule_type
      \<and> rule_emission ''Equals(x)'' =
          Inr (rule_type,
               [(''reduce_type'', HANDLER_STANDARD_RULE_COUNTER_KEY),
                (''rule_str'', ''Equals(x)''),
                (''rule_args'', rule_args)]))
   \<and> rule_emission ''Equals(x)'' =
       Inr (''Equals'', [(''reduce_type'', ''StandardRuleCounter''),
                         (''rule_str'', ''Equals(x)''), (''rule_args'', ''x'')])
   \<and> rule_emission ''FuzzyMatches'' =
       Inr (''FuzzyMatches'', [(''reduce_type'', HANDLER_FUZZY_RULE_COUNTER_KEY)])
   \<and> rule_emission ''Default'' =
       Inr (''Default'', [(''reduce_type'', HANDLER_DEFAULT_RULE_COUNTER_KEY)])
   \<and> rule_emission ''garbage'' =
       Inr (''garbage'', [(''reduce_type'', HANDLER_ERROR_RULE_COUNTER_KEY)])"
proof -
  have eq: "rule_emission ''Equals(x)'' =
       Inr (''Equals'', [(''reduce_type'', ''StandardRuleCounter''),
                         (''rule_str'', ''Equals(x)''), (''rule_args'', ''x'')])"
    by code_simp
  have h: "''Equals(x)'' \<noteq> ''FuzzyMatches'' \<and> ''Equals(x)'' \<noteq> ''Default''
           \<and> CHR ''('' \<in> set ''Equals(x)'' \<and> last ''Equals(x)'' = CHR '')''"
    by simp
  have g: "''garbage'' \<noteq> ''FuzzyMatches'' \<and> ''garbage'' \<noteq> ''Default''
           \<and> \<not> (CHR ''('' \<in> set ''garbage'' \<and> last ''garbage'' = CHR '')'')"
    by simp
  note std = rule_emission_classification [of "''Equals(x)''", THEN conjunct2, THEN conjunct2,
      THEN conjunct2, THEN conjunct1, THEN mp, OF h]
  note garbage = rule_emission_classification [of "''garbage''", THEN conjunct2, THEN conjunct2,
      THEN conjunct2, THEN conjunct2, THEN mp, OF g]
  note fuzzy = rule_emission_classification [of "''FuzzyMatches''", THEN conjunct2, THEN conjunct1, THEN mp, OF refl]
  note default = rule_emission_classification [of "''Default''", THEN conjunct2, THEN conjunct2, THEN conjunct1,
      THEN mp, OF refl]
  show ?thesis
    by (intro conjI) (rule std eq fuzzy default garbage)+
qed


section \<open>AnswersAudit: one reduce type per key\<close>

lemma reduce_type_loop_established:
  assumes "t0 \<noteq> []"
  shows "map literal_eval vs = map Inr ds \<Longrightarrow>
         \<forall>d \<in> set ds. \<exists>t. map_of d ''reduce_type'' = Some t \<Longrightarrow>
         reduce_type_loop literal_eval vs (Some t0)
           = (replicate (length (filter (\<lambda>d. map_of d ''reduce_type'' \<noteq> Some t0) ds))
                ''Internal error 1'',
              Inr (Some t0))"
proof (induction vs arbitrary: ds)
  case Nil
  then show ?case by simp
next
  case (Cons v vs)
  from Cons.prems(1) obtain d ds' where ds: "ds = d # ds'" and v: "literal_eval v = Inr d"
    and vs: "map literal_eval vs = map Inr ds'"
    by (cases ds) auto
  from Cons.prems(2) ds obtain t where t: "map_of d ''reduce_type'' = Some t" by auto
  have rest: "\<forall>d \<in> set ds'. \<exists>t. map_of d ''reduce_type'' = Some t"
    using Cons.prems(2) ds by simp
  show ?case
    using Cons.IH [OF vs rest] assms
    by (auto simp: ds v t truthy_def py_getitem_def)
qed

lemma reduce_type_loop_None:
  assumes "map literal_eval vs = map Inr ds"
    and "\<forall>d \<in> set ds. \<exists>t. map_of d ''reduce_type'' = Some t \<and> t \<noteq> []"
  shows "reduce_type_loop literal_eval vs None
           = (replicate
                (length (filter (\<lambda>d. map_of d ''reduce_type'' \<noteq> map_of (hd ds) ''reduce_type'') ds))
                ''Internal error 1'',
              Inr (if ds = [] then None else map_of (hd ds) ''reduce_type''))"
proof (cases vs)
  case Nil
  then show ?thesis using assms(1) by simp
next
  case (Cons v vs')
  from assms(1) Cons obtain d ds' where ds: "ds = d # ds'" and v: "literal_eval v = Inr d"
    and vs: "map literal_eval vs' = map Inr ds'"
    by (cases ds) auto
  from assms(2) ds obtain t where t: "map_of d ''reduce_type'' = Some t" and ne: "t \<noteq> []"
    by auto
  have rest: "\<forall>d \<in> set ds'. \<exists>t. map_of d ''reduce_type'' = Some t"
    using assms(2) ds by auto
  show ?thesis
    using reduce_type_loop_established [OF ne vs rest]
    by (simp add: Cons ds v t truthy_def py_getitem_def)
qed

lemma count_list_replicate_self: "count_list (replicate n x) x = n"
  by (induction n) auto

lemma reduce_count_internal_error:
  assumes "reduce_type_loop literal_eval vs None = (replicate n ''Internal error 1'', Inr r)"
  shows "count_list (fst (AnswersAudit_reduce literal_eval str_list k vs)) ''Internal error 1'' = n"
  using assms
  by (simp add: AnswersAudit_reduce_def Let_def count_list_replicate_self split: sum.splits)


lemma rule_emission_reduce_type:
  "rule_emission s = Inr (key', d) \<Longrightarrow>
     \<exists>t. map_of d ''reduce_type'' = Some t \<and> t \<noteq> []"
  by (auto simp: rule_emission_def HANDLER_FUZZY_RULE_COUNTER_KEY_def
      HANDLER_DEFAULT_RULE_COUNTER_KEY_def HANDLER_STANDARD_RULE_COUNTER_KEY_def
      HANDLER_ERROR_RULE_COUNTER_KEY_def Let_def
      split: if_splits sum.splits bool.splits)

lemma map_emission_reduce_type:
  assumes "(key', d) \<in> set (fst (AnswersAudit_map item))"
  shows "\<exists>t. map_of d ''reduce_type'' = Some t \<and> t \<noteq> []"
proof (cases "parse_item_id (id' item)")
  case (Inl e)
  then show ?thesis using assms by (simp add: AnswersAudit_map_def)
next
  case (Inr p)
  obtain e s h r where p: "p = (e, s, h, r)" by (cases p)
  show ?thesis
  proof (cases "rule_emission r")
    case (Inl err)
    then show ?thesis using assms Inr p
      by (auto simp: AnswersAudit_map_def HANDLER_NAME_COUNTER_KEY_def)
  next
    case (Inr pair)
    obtain rk rd where pair: "pair = (rk, rd)" by (cases pair)
    from rule_emission_reduce_type [of r rk rd] Inr pair
    have "\<exists>t. map_of rd ''reduce_type'' = Some t \<and> t \<noteq> []" by simp
    then show ?thesis using assms \<open>parse_item_id (id' item) = Inr p\<close> p Inr pair
      by (auto simp: AnswersAudit_map_def HANDLER_NAME_COUNTER_KEY_def)
  qed
qed

text \<open>
  The reducer's own check of the reduce types. Every pair that the mapper yields
  carries a non-empty \<open>reduce_type\<close>, and on a group of values that all decode and carry
  a non-empty \<open>reduce_type\<close> the reducer yields \<^verbatim>\<open>Internal error 1\<close> once for each
  value whose \<open>reduce_type\<close> differs from that of the first value.
\<close>

lemma internal_error_1_count:
  "(\<forall>(key', d) \<in> set (fst (AnswersAudit_map item)).
       \<exists>t. map_of d ''reduce_type'' = Some t \<and> t \<noteq> [])
   \<and> (map literal_eval vs = map Inr ds
        \<and> (\<forall>d \<in> set ds. \<exists>t. map_of d ''reduce_type'' = Some t \<and> t \<noteq> [])
       \<longrightarrow> count_list (fst (AnswersAudit_reduce literal_eval str_list k vs)) ''Internal error 1''
             = length (filter (\<lambda>d. map_of d ''reduce_type'' \<noteq> map_of (hd ds) ''reduce_type'') ds))"
proof -
  have "\<forall>(key', d) \<in> set (fst (AnswersAudit_map item)).
       \<exists>t. map_of d ''reduce_type'' = Some t \<and> t \<noteq> []"
    using map_emission_reduce_type by blast
  moreover have "count_list (fst (AnswersAudit_reduce literal_eval str_list k vs)) ''Internal error 1''
             = length (filter (\<lambda>d. map_of d ''reduce_type'' \<noteq> map_of (hd ds) ''reduce_type'') ds)"
    if "map literal_eval vs = map Inr ds"
      and "\<forall>d \<in> set ds. \<exists>t. map_of d ''reduce_type'' = Some t \<and> t \<noteq> []"
    using reduce_count_internal_error [OF reduce_type_loop_None [OF that]] .
  ultimately show ?thesis by blast
qed

text \<open>
  Claim C2. All pairs that the mapper yields under one key should carry the same
  \<open>reduce_type\<close>, so that the reducer never takes its \<^verbatim>\<open>Internal error 1\<close> branch; the
  reducer itself calls a mixed group an internal error. The mapper does not keep this:
  the record \<^verbatim>\<open>e.s.Default.Default\<close> is mapped without an exception, and its two pairs
  share the key \<^verbatim>\<open>Default\<close> with the reduce types \<^verbatim>\<open>HandlerCounter\<close> and
  \<^verbatim>\<open>DefaultRuleCounter\<close>. On that group, in the order in which the pairs were yielded,
  the reducer yields \<^verbatim>\<open>Internal error 1\<close> and then raises KeyError in its second loop,
  since the second value has no \<^verbatim>\<open>rule_spec_str\<close>; in the opposite order it yields
  \<^verbatim>\<open>Internal error 1\<close> and the summary of the default rules.
\<close>

theorem mapper_mixes_reduce_types:
  "AnswersAudit_map \<lparr>id' = ''e.s.Default.Default''\<rparr>
     = ([(''Default'', [(''reduce_type'', ''HandlerCounter''),
                        (''rule_spec_str'', ''e.s.Default.Default'')]),
         (''Default'', [(''reduce_type'', ''DefaultRuleCounter'')])], None)
   \<and> ''HandlerCounter'' \<noteq> ''DefaultRuleCounter''
   \<and> AnswersAudit_reduce
        (case_option (Inl ValueError) Inr \<circ> map_of
           [(''x'', [(''reduce_type'', ''HandlerCounter''), (''rule_spec_str'', ''e.s.Default.Default'')]),
            (''y'', [(''reduce_type'', ''DefaultRuleCounter'')])])
        concat ''Default'' [''x'', ''y'']
     = ([''Internal error 1''], Some KeyError)
   \<and> AnswersAudit_reduce
        (case_option (Inl ValueError) Inr \<circ> map_of
           [(''x'', [(''reduce_type'', ''HandlerCounter''), (''rule_spec_str'', ''e.s.Default.Default'')]),
            (''y'', [(''reduce_type'', ''DefaultRuleCounter'')])])
        concat ''Default'' [''y'', ''x'']
     = ([''Internal error 1'', ''Found default rules 2 time(s)''], None)"
  by code_simp


section \<open>StatisticsAudit: the mapper on counters\<close>

text \<open>
  Claim C6. For a \<^verbatim>\<open>StateCounterModel\<close> whose \<open>first_entry_count\<close> is not negative the
  mapper yields nothing. For a negative count it yields exactly one pair, under the key
  \<^verbatim>\<open>State Counter ERROR\<close>, whose message is \<^verbatim>\<open>Less than 0:\<close> followed by the key of
  the record and the count in decimal; both are parts of the message.
\<close>

theorem counter_fact_mapper:
  "(0 \<le> first_entry_count item \<longrightarrow> StatisticsAudit_map (StateCounter item) = ([], None))
   \<and> (first_entry_count item < 0 \<longrightarrow>
        (\<exists>message.
           StatisticsAudit_map (StateCounter item)
             = ([(STATE_COUNTER_ERROR_KEY, Message message)], None)
           \<and> message = ''Less than 0: '' @ key item @ '' '' @ str_int (first_entry_count item)
           \<and> sublist (key item) message
           \<and> sublist (str_int (first_entry_count item)) message))"
proof -
  have "sublist (key item) (''Less than 0: '' @ key item @ '' '' @ str_int (first_entry_count item))"
    by (rule sublist_appendI)
  moreover have "sublist (str_int (first_entry_count item))
      (''Less than 0: '' @ key item @ '' '' @ str_int (first_entry_count item))"
    using sublist_append_leftI [of "str_int (first_entry_count item)" "''Less than 0: '' @ key item @ '' ''"]
    by simp
  ultimately show ?thesis by simp
qed

theorem counter_fact_mapper_witness:
  "StatisticsAudit_map (StateCounter \<lparr>key = ''exp.state'', first_entry_count = 0\<rparr>) = ([], None)
   \<and> StatisticsAudit_map (StateCounter \<lparr>key = ''exp.state'', first_entry_count = - 12\<rparr>)
       = ([(STATE_COUNTER_ERROR_KEY, Message ''Less than 0: exp.state -12'')], None)
   \<and> sublist ''exp.state'' ''Less than 0: exp.state -12''
   \<and> sublist ''-12'' ''Less than 0: exp.state -12''"
proof -
  have s: "str_int (- 12) = ''-12''" by code_simp
  show ?thesis
    using counter_fact_mapper [of "\<lparr>key = ''exp.state'', first_entry_count = 0\<rparr>"]
      counter_fact_mapper [of "\<lparr>key = ''exp.state'', first_entry_count = - 12\<rparr>"]
    by (simp add: s)
qed


section \<open>StatisticsAudit: the loop over the values\<close>

lemma values_loop_decoded:
  "map literal_eval vs = map Inr ds \<Longrightarrow>
     values_loop literal_eval va k vs t
       = (concat (map (value_checks k) ds), Inr (fold (accumulate va) ds t))"
proof (induction vs arbitrary: ds t)
  case Nil
  then show ?case by simp
next
  case (Cons v vs)
  then obtain x xs where ds: "ds = x # xs" and v: "literal_eval v = Inr x"
    and vs: "map literal_eval vs = map Inr xs"
    by (cases "ds") auto
  show ?case using Cons.IH [OF vs] by (simp add: ds v)
qed

lemma reduce_decoded:
  assumes "k \<noteq> STATE_COUNTER_ERROR_KEY" and "map literal_eval vs = map Inr ds"
  shows "StatisticsAudit_reduce literal_eval va k vs =
           (concat (map (value_checks k) ds)
              @ totals_check k (fold (accumulate va) ds initial_totals)
              @ state_hit_loop k (all_state_hit (fold (accumulate va) ds initial_totals))
                  (map fst (all_state_hit (fold (accumulate va) ds initial_totals)))
                  (sum_state_hit (fold (accumulate va) ds initial_totals)),
            None)"
  using assms(1) by (simp add: StatisticsAudit_reduce_def values_loop_decoded [OF assms(2)])

lemma value_checks_length:
  "length (value_checks k value) =
     (if starts value < 0 then 1 else 0) + (if completions value < 0 then 1 else 0)
     + (if completions value > starts value then 1 else 0)"
  by (simp add: value_checks_def)


lemma fold_update_map_of:
  "map_of (fold (\<lambda>(state_name, counts) d. AList.update state_name counts d) xs d)
     = map_of d ++ map_of (rev xs)"
proof (induction xs arbitrary: d)
  case Nil
  then show ?case by simp
next
  case (Cons x xs)
  obtain n c where x: "x = (n, c)" by (cases x)
  have "map_of (AList.update n c d) ++ map_of (rev xs)
          = map_of d ++ (map_of (rev xs @ [(n, c)]))"
    by (simp add: update_conv' map_add_upd_left fun_eq_iff map_add_def split: option.splits)
  then show ?case using Cons.IH [of "AList.update n c d"] by (simp add: x)
qed

lemma fold_update_distinct:
  "distinct (map fst d) \<Longrightarrow>
     distinct (map fst (fold (\<lambda>(state_name, counts) d. AList.update state_name counts d) xs d))"
proof (induction xs arbitrary: d)
  case Nil
  then show ?case by simp
next
  case (Cons x xs)
  obtain n c where x: "x = (n, c)" by (cases x)
  show ?case using Cons.IH [of "AList.update n c d"] Cons.prems
    by (simp add: x distinct_update)
qed

lemma accumulate_all:
  "version v = va \<Longrightarrow> accumulate va v t =
     t\<lparr>all_starts := starts v, all_completions := completions v,
       all_state_hit := fold (\<lambda>(state_name, counts) d. AList.update state_name counts d)
                          (state_hit v) (all_state_hit t)\<rparr>"
  by (simp add: accumulate_def)

lemma accumulate_other:
  "version v \<noteq> va \<Longrightarrow>
     all_starts (accumulate va v t) = all_starts t
     \<and> all_completions (accumulate va v t) = all_completions t
     \<and> all_state_hit (accumulate va v t) = all_state_hit t"
  by (simp add: accumulate_def)

lemma fold_accumulate_all_starts:
  "all_starts (fold (accumulate va) ds t) =
     (if filter (\<lambda>v. version v = va) ds = [] then all_starts t
      else starts (last (filter (\<lambda>v. version v = va) ds)))"
proof (induction ds arbitrary: t)
  case Nil
  then show ?case by simp
next
  case (Cons x xs)
  show ?case
  proof (cases "version x = va")
    case True
    then show ?thesis using Cons.IH [of "accumulate va x t"] by (simp add: accumulate_all)
  next
    case False
    then show ?thesis using Cons.IH [of "accumulate va x t"] by (simp add: accumulate_other)
  qed
qed

lemma fold_accumulate_all_completions:
  "all_completions (fold (accumulate va) ds t) =
     (if filter (\<lambda>v. version v = va) ds = [] then all_completions t
      else completions (last (filter (\<lambda>v. version v = va) ds)))"
proof (induction ds arbitrary: t)
  case Nil
  then show ?case by simp
next
  case (Cons x xs)
  show ?case
  proof (cases "version x = va")
    case True
    then show ?thesis using Cons.IH [of "accumulate va x t"] by (simp add: accumulate_all)
  next
    case False
    then show ?thesis using Cons.IH [of "accumulate va x t"] by (simp add: accumulate_other)
  qed
qed

lemma fold_accumulate_all_state_hit:
  "map_of (all_state_hit (fold (accumulate va) ds t)) =
     map_of (all_state_hit t)
       ++ map_of (rev (concat (map state_hit (filter (\<lambda>v. version v = va) ds))))"
proof (induction ds arbitrary: t)
  case Nil
  then show ?case by simp
next
  case (Cons x xs)
  show ?case
  proof (cases "version x = va")
    case True
    then show ?thesis using Cons.IH [of "accumulate va x t"]
      by (simp add: accumulate_all fold_update_map_of)
  next
    case False
    then show ?thesis using Cons.IH [of "accumulate va x t"] by (simp add: accumulate_other)
  qed
qed

lemma fold_accumulate_distinct:
  "distinct (map fst (all_state_hit t)) \<Longrightarrow>
     distinct (map fst (all_state_hit (fold (accumulate va) ds t)))"
proof (induction ds arbitrary: t)
  case Nil
  then show ?case by simp
next
  case (Cons x xs)
  show ?case
  proof (cases "version x = va")
    case True
    then show ?thesis using Cons.IH [of "accumulate va x t"] Cons.prems
      by (simp add: accumulate_all fold_update_distinct)
  next
    case False
    then show ?thesis using Cons.IH [of "accumulate va x t"] Cons.prems
      by (simp add: accumulate_other)
  qed
qed


lemma state_hit_step_cong:
  "map_of s1 n = map_of s2 n \<Longrightarrow>
     fst (state_hit_step k all_hit n s1) = fst (state_hit_step k all_hit n s2)"
  by (simp add: state_hit_step_def defaultdict_get_def split: option.splits prod.splits)

lemma state_hit_step_other:
  "n \<noteq> m \<Longrightarrow> map_of (snd (state_hit_step k all_hit m sum_hit)) n = map_of sum_hit n"
  by (simp add: state_hit_step_def defaultdict_get_def map_add_def split: option.splits prod.splits)

lemma state_hit_loop_concat:
  "distinct names \<Longrightarrow>
     state_hit_loop k all_hit names sum_hit
       = concat (map (\<lambda>n. fst (state_hit_step k all_hit n sum_hit)) names)"
proof (induction names arbitrary: sum_hit)
  case Nil
  then show ?case by simp
next
  case (Cons m names)
  let ?s' = "snd (state_hit_step k all_hit m sum_hit)"
  have "fst (state_hit_step k all_hit n ?s') = fst (state_hit_step k all_hit n sum_hit)"
    if "n \<in> set names" for n
  proof -
    have "n \<noteq> m" using that Cons.prems by auto
    then show ?thesis by (intro state_hit_step_cong state_hit_step_other)
  qed
  then have "concat (map (\<lambda>n. fst (state_hit_step k all_hit n ?s')) names)
      = concat (map (\<lambda>n. fst (state_hit_step k all_hit n sum_hit)) names)"
    by (intro arg_cong [where f = concat] map_cong) auto
  moreover have "state_hit_loop k all_hit names ?s'
      = concat (map (\<lambda>n. fst (state_hit_step k all_hit n ?s')) names)"
    using Cons.prems by (intro Cons.IH) simp
  ultimately show ?case by (simp add: case_prod_beta)
qed

lemma state_hit_step_entry:
  assumes "distinct (map fst all_hit)" and "(state_name, all_v) \<in> set all_hit"
  shows "fst (state_hit_step k all_hit state_name sum_hit) =
          (case map_of sum_hit state_name of
             None \<Rightarrow>
               if all_v \<noteq> 0
               then [''state hit count not same exp_id:'' @ k @ '' state:'' @ state_name
                     @ '', all:'' @ str_int all_v @ '' sum: null'']
               else []
           | Some sum_v \<Rightarrow>
               if all_v \<noteq> sum_v
               then [''state hit count not same exp_id: '' @ k @ '' state: '' @ state_name
                     @ '' all: '' @ str_int all_v @ '' sum:'' @ str_int sum_v]
               else [])"
proof -
  have "map_of all_hit state_name = Some all_v" using assms by simp
  then show ?thesis
    by (simp add: state_hit_step_def defaultdict_get_def split: option.splits)
qed

lemma values_loop_Inr_decoded:
  "values_loop literal_eval va k vs t = (out, Inr T) \<Longrightarrow> \<exists>ds. map literal_eval vs = map Inr ds"
proof (induction vs arbitrary: t out)
  case Nil
  then show ?case by simp
next
  case (Cons v vs)
  from Cons.prems obtain d where d: "literal_eval v = Inr d"
    by (cases "literal_eval v") auto
  from Cons.prems d obtain out' where
    "values_loop literal_eval va k vs (accumulate va d t) = (out', Inr T)"
    by (auto split: prod.splits)
  from Cons.IH [OF this] obtain ds where "map literal_eval vs = map Inr ds" by blast
  then have "map literal_eval (v # vs) = map Inr (d # ds)" using d by simp
  then show ?case by blast
qed


text \<open>
  Claim C8. For a key other than \<^verbatim>\<open>State Counter ERROR\<close> and values that all decode, the
  reducer ends without an exception, and its output starts with the checks of every
  value, in the order of the values: a violation does not stop the loop. The checks of
  one value \<open>d\<close> are one line for each of the conditions \<open>starts < 0\<close>,
  \<open>completions < 0\<close> and \<open>completions > starts\<close> that \<open>d\<close> violates, and no other line.
\<close>

theorem value_checks_exhaustive:
  assumes "k \<noteq> STATE_COUNTER_ERROR_KEY" and "map literal_eval vs = map Inr ds"
  shows "(\<exists>rest. StatisticsAudit_reduce literal_eval va k vs
                   = (concat (map (value_checks k) ds) @ rest, None))
         \<and> length (value_checks k d) =
             (if starts d < 0 then 1 else 0) + (if completions d < 0 then 1 else 0)
             + (if completions d > starts d then 1 else (0::nat))
         \<and> (starts d < 0 \<longleftrightarrow>
              ''Negative start count: exp_id:'' @ k @ '' version:'' @ version d
                @ '' starts:'' @ str_int (starts d) \<in> set (value_checks k d))
         \<and> (completions d < 0 \<longleftrightarrow>
              ''Negative completion count: exp_id:'' @ k @ '' version:'' @ version d
                @ '' completions:'' @ str_int (completions d) \<in> set (value_checks k d))
         \<and> (completions d > starts d \<longleftrightarrow>
              ''Completions > starts: exp_id:'' @ k @ '' version:'' @ version d
                @ '' '' @ str_int (completions d) @ ''>'' @ str_int (starts d)
                \<in> set (value_checks k d))"
proof -
  have "\<exists>rest. StatisticsAudit_reduce literal_eval va k vs
                   = (concat (map (value_checks k) ds) @ rest, None)"
    using reduce_decoded [OF assms, of va] by blast
  moreover have "length (value_checks k d) =
             (if starts d < 0 then 1 else 0) + (if completions d < 0 then 1 else 0)
             + (if completions d > starts d then 1 else (0::nat))"
    by (simp add: value_checks_def)
  moreover have "starts d < 0 \<longleftrightarrow>
              ''Negative start count: exp_id:'' @ k @ '' version:'' @ version d
                @ '' starts:'' @ str_int (starts d) \<in> set (value_checks k d)"
    by (simp add: value_checks_def)
  moreover have "completions d < 0 \<longleftrightarrow>
              ''Negative completion count: exp_id:'' @ k @ '' version:'' @ version d
                @ '' completions:'' @ str_int (completions d) \<in> set (value_checks k d)"
    by (simp add: value_checks_def)
  moreover have "completions d > starts d \<longleftrightarrow>
              ''Completions > starts: exp_id:'' @ k @ '' version:'' @ version d
                @ '' '' @ str_int (completions d) @ ''>'' @ str_int (starts d)
                \<in> set (value_checks k d)"
    by (simp add: value_checks_def)
  ultimately show ?thesis by blast
qed


theorem value_checks_exhaustive_witness:
  "\<exists>rest.
     StatisticsAudit_reduce
       (case_option (Inl ValueError) Inr \<circ> map_of
          [(''x'', \<lparr>version = ''1'', starts = - 4, completions = - 3, state_hit = []\<rparr>),
           (''y'', \<lparr>version = ''2'', starts = 2, completions = 5, state_hit = []\<rparr>)])
       ''all'' ''exp'' [''x'', ''y'']
     = ([''Negative start count: exp_id:exp version:1 starts:-4'',
         ''Negative completion count: exp_id:exp version:1 completions:-3'',
         ''Completions > starts: exp_id:exp version:1 -3>-4'',
         ''Completions > starts: exp_id:exp version:2 5>2''] @ rest, None)"
  using value_checks_exhaustive [of "''exp''"
      "case_option (Inl ValueError) Inr \<circ> map_of
          [(''x'', \<lparr>version = ''1'', starts = - 4, completions = - 3, state_hit = []\<rparr>),
           (''y'', \<lparr>version = ''2'', starts = 2, completions = 5, state_hit = []\<rparr>)]"
      "[''x'', ''y'']"
      "[\<lparr>version = ''1'', starts = - 4, completions = - 3, state_hit = []\<rparr>,
        \<lparr>version = ''2'', starts = 2, completions = 5, state_hit = []\<rparr>]"
      "''all''", THEN conjunct1]
  by (simp add: STATE_COUNTER_ERROR_KEY_def value_checks_def str_int_examples)


text \<open>
  Claim C3, as the source has it. With \<open>T\<close> the accumulators after the loop: when the
  group has a value of version \<open>VERSION_ALL\<close>, \<open>all_starts\<close> and \<open>all_completions\<close> are
  the counts of the last such value. The map \<open>all_state_hit\<close> is merged, not replaced:
  a state has the count of the last value of version \<open>VERSION_ALL\<close> that mentions it.
  The loop yields the per-value checks and nothing else, so no line reports a second
  value of version \<open>VERSION_ALL\<close>.
\<close>

theorem last_all_value_totals:
  assumes "k \<noteq> STATE_COUNTER_ERROR_KEY" and "map literal_eval vs = map Inr ds"
  shows "\<exists>T. values_loop literal_eval va k vs initial_totals
               = (concat (map (value_checks k) ds), Inr T)
           \<and> StatisticsAudit_reduce literal_eval va k vs
               = (concat (map (value_checks k) ds) @ totals_check k T
                    @ state_hit_loop k (all_state_hit T) (map fst (all_state_hit T))
                        (sum_state_hit T),
                  None)
           \<and> (filter (\<lambda>d. version d = va) ds \<noteq> [] \<longrightarrow>
                all_starts T = starts (last (filter (\<lambda>d. version d = va) ds))
                \<and> all_completions T = completions (last (filter (\<lambda>d. version d = va) ds)))
           \<and> map_of (all_state_hit T)
               = map_of (rev (concat (map state_hit (filter (\<lambda>d. version d = va) ds))))"
proof -
  let ?T = "fold (accumulate va) ds initial_totals"
  have "values_loop literal_eval va k vs initial_totals
               = (concat (map (value_checks k) ds), Inr ?T)"
    by (rule values_loop_decoded [OF assms(2)])
  moreover note reduce_decoded [OF assms, of va]
  moreover have "filter (\<lambda>d. version d = va) ds \<noteq> [] \<longrightarrow>
                all_starts ?T = starts (last (filter (\<lambda>d. version d = va) ds))
                \<and> all_completions ?T = completions (last (filter (\<lambda>d. version d = va) ds))"
    by (simp add: fold_accumulate_all_starts fold_accumulate_all_completions)
  moreover have "map_of (all_state_hit ?T)
               = map_of (rev (concat (map state_hit (filter (\<lambda>d. version d = va) ds))))"
    by (simp add: fold_accumulate_all_state_hit initial_totals_def)
  ultimately show ?thesis by blast
qed

theorem last_all_value_totals_witness:
  "\<exists>T. values_loop
         (case_option (Inl ValueError) Inr \<circ> map_of
            [(''x'', \<lparr>version = ''all'', starts = 7, completions = 2, state_hit = [(''A'', 3)]\<rparr>),
             (''y'', \<lparr>version = ''all'', starts = 5, completions = 1, state_hit = [(''B'', 2)]\<rparr>)])
         ''all'' ''exp'' [''x'', ''y''] initial_totals = ([], Inr T)
       \<and> all_starts T = 5 \<and> all_completions T = 1
       \<and> map_of (all_state_hit T) = map_of [(''B'', 2), (''A'', 3)]"
  using last_all_value_totals [of "''exp''"
      "case_option (Inl ValueError) Inr \<circ> map_of
            [(''x'', \<lparr>version = ''all'', starts = 7, completions = 2, state_hit = [(''A'', 3)]\<rparr>),
             (''y'', \<lparr>version = ''all'', starts = 5, completions = 1, state_hit = [(''B'', 2)]\<rparr>)]"
      "[''x'', ''y'']"
      "[\<lparr>version = ''all'', starts = 7, completions = 2, state_hit = [(''A'', 3)]\<rparr>,
        \<lparr>version = ''all'', starts = 5, completions = 1, state_hit = [(''B'', 2)]\<rparr>]"
      "''all''"]
  by (simp add: STATE_COUNTER_ERROR_KEY_def value_checks_def)


text \<open>
  Claim C3, as the spec words it, fails for the per-state hit map: after two values of
  version \<^verbatim>\<open>all\<close>, the first with state \<^verbatim>\<open>A\<close> and the second with no state, the map
  still holds \<^verbatim>\<open>A\<close>, which is not the map of the last value, and the reducer reports
  state \<^verbatim>\<open>A\<close>.
\<close>

theorem all_state_hit_keeps_earlier_states:
  "map_sum id all_state_hit
     (snd (values_loop
         (case_option (Inl ValueError) Inr \<circ> map_of
            [(''x'', \<lparr>version = ''all'', starts = 0, completions = 0, state_hit = [(''A'', 3)]\<rparr>),
             (''y'', \<lparr>version = ''all'', starts = 0, completions = 0, state_hit = []\<rparr>)])
         ''all'' ''exp'' [''x'', ''y''] initial_totals))
     = Inr [(''A'', 3)]
   \<and> [(''A'', 3 :: int)] \<noteq> state_hit \<lparr>version = ''all'', starts = 0, completions = 0, state_hit = []\<rparr>
   \<and> StatisticsAudit_reduce
         (case_option (Inl ValueError) Inr \<circ> map_of
            [(''x'', \<lparr>version = ''all'', starts = 0, completions = 0, state_hit = [(''A'', 3)]\<rparr>),
             (''y'', \<lparr>version = ''all'', starts = 0, completions = 0, state_hit = []\<rparr>)])
         ''all'' ''exp'' [''x'', ''y'']
       = ([''state hit count not same exp_id:exp state:A, all:3 sum: null''], None)"
  by (simp add: StatisticsAudit_reduce_def STATE_COUNTER_ERROR_KEY_def initial_totals_def
      accumulate_def value_checks_def totals_check_def state_hit_step_def defaultdict_get_def
      str_int_examples)



section \<open>StatisticsAudit: the state hit counts\<close>

text \<open>
  Claim C4. After the lines of the loop and of the totals, the reducer's output is the
  concatenation, over the states of the ALL map, of the lines of one round each taken
  against the summed map as the loop left it (the zeros that the rounds store do not
  matter). For a state that the summed map lacks, the round gives the \<^verbatim>\<open>sum: null\<close> line
  if and only if the ALL count is not 0; for a state that the summed map has, it gives
  the mismatch line if and only if the two counts differ.
\<close>

theorem asymmetric_zero_handling:
  assumes "k \<noteq> STATE_COUNTER_ERROR_KEY"
    and "values_loop literal_eval va k vs initial_totals = (out, Inr T)"
  shows "StatisticsAudit_reduce literal_eval va k vs
           = (out @ totals_check k T
                @ concat (map (\<lambda>(state_name, all_v).
                                 fst (state_hit_step k (all_state_hit T) state_name (sum_state_hit T)))
                            (all_state_hit T)),
              None)
         \<and> (\<forall>(state_name, all_v) \<in> set (all_state_hit T).
               fst (state_hit_step k (all_state_hit T) state_name (sum_state_hit T)) =
                 (case map_of (sum_state_hit T) state_name of
                    None \<Rightarrow>
                      if all_v \<noteq> 0
                      then [''state hit count not same exp_id:'' @ k @ '' state:'' @ state_name
                            @ '', all:'' @ str_int all_v @ '' sum: null'']
                      else []
                  | Some sum_v \<Rightarrow>
                      if all_v \<noteq> sum_v
                      then [''state hit count not same exp_id: '' @ k @ '' state: '' @ state_name
                            @ '' all: '' @ str_int all_v @ '' sum:'' @ str_int sum_v]
                      else []))"
proof -
  from values_loop_Inr_decoded [OF assms(2)] obtain ds
    where ds: "map literal_eval vs = map Inr ds" by blast
  have T: "T = fold (accumulate va) ds initial_totals"
    using values_loop_decoded [OF ds, of va k initial_totals] assms(2) by simp
  have dist: "distinct (map fst (all_state_hit T))"
    unfolding T by (rule fold_accumulate_distinct) (simp add: initial_totals_def)
  have "state_hit_loop k (all_state_hit T) (map fst (all_state_hit T)) (sum_state_hit T)
          = concat (map (\<lambda>(state_name, all_v).
                                 fst (state_hit_step k (all_state_hit T) state_name (sum_state_hit T)))
                            (all_state_hit T))"
    by (simp add: state_hit_loop_concat [OF dist] comp_def case_prod_unfold)
  then have "StatisticsAudit_reduce literal_eval va k vs
           = (out @ totals_check k T
                @ concat (map (\<lambda>(state_name, all_v).
                                 fst (state_hit_step k (all_state_hit T) state_name (sum_state_hit T)))
                            (all_state_hit T)),
              None)"
    using assms by (simp add: StatisticsAudit_reduce_def)
  moreover have "\<forall>(state_name, all_v) \<in> set (all_state_hit T).
               fst (state_hit_step k (all_state_hit T) state_name (sum_state_hit T)) =
                 (case map_of (sum_state_hit T) state_name of
                    None \<Rightarrow>
                      if all_v \<noteq> 0
                      then [''state hit count not same exp_id:'' @ k @ '' state:'' @ state_name
                            @ '', all:'' @ str_int all_v @ '' sum: null'']
                      else []
                  | Some sum_v \<Rightarrow>
                      if all_v \<noteq> sum_v
                      then [''state hit count not same exp_id: '' @ k @ '' state: '' @ state_name
                            @ '' all: '' @ str_int all_v @ '' sum:'' @ str_int sum_v]
                      else [])"
    using state_hit_step_entry [OF dist] by blast
  ultimately show ?thesis by blast
qed

theorem asymmetric_zero_handling_witness:
  "StatisticsAudit_reduce
     (case_option (Inl ValueError) Inr \<circ> map_of
        [(''x'', \<lparr>version = ''all'', starts = 0, completions = 0,
                  state_hit = [(''A'', 3), (''Z'', 0), (''Q'', 5), (''B'', 1)]\<rparr>),
         (''y'', \<lparr>version = ''1'', starts = 0, completions = 0,
                  state_hit = [(''A'', 2), (''B'', 1)]\<rparr>)])
     ''all'' ''exp'' [''x'', ''y'']
   = ([''state hit count not same exp_id: exp state: A all: 3 sum:2'',
       ''state hit count not same exp_id:exp state:Q, all:5 sum: null''], None)"
proof -
  let ?le = "case_option (Inl ValueError) Inr \<circ> map_of
        [(''x'', \<lparr>version = ''all'', starts = 0, completions = 0,
                  state_hit = [(''A'', 3), (''Z'', 0), (''Q'', 5), (''B'', 1)]\<rparr>),
         (''y'', \<lparr>version = ''1'', starts = 0, completions = 0,
                  state_hit = [(''A'', 2 :: int), (''B'', 1)]\<rparr>)]"
  have k: "''exp'' \<noteq> STATE_COUNTER_ERROR_KEY" by (simp add: STATE_COUNTER_ERROR_KEY_def)
  have loop: "values_loop ?le ''all'' ''exp'' [''x'', ''y''] initial_totals
      = ([], Inr \<lparr>all_starts = 0, all_completions = 0,
                  all_state_hit = [(''A'', 3), (''Z'', 0), (''Q'', 5), (''B'', 1)],
                  sum_starts = 0, sum_completions = 0,
                  sum_state_hit = [(''A'', 2), (''B'', 1)]\<rparr>)"
    by (simp add: initial_totals_def accumulate_def value_checks_def defaultdict_get_def)
  show ?thesis
    using asymmetric_zero_handling [OF k loop, THEN conjunct1]
    by (simp add: totals_check_def state_hit_step_def defaultdict_get_def str_int_examples)
qed


section \<open>Two runs of a job\<close>

lemma mset_concat_map_perm:
  assumes "mset ks = mset ks'"
  shows "mset (concat (map f ks)) = mset (concat (map f ks'))"
proof -
  have "mset (concat (map f ks)) = sum_mset (image_mset (\<lambda>k. mset (f k)) (mset ks))"
    by (induction ks) simp_all
  moreover have "mset (concat (map f ks')) = sum_mset (image_mset (\<lambda>k. mset (f k)) (mset ks'))"
    by (induction ks') simp_all
  ultimately show ?thesis using assms by simp
qed

lemma reduce_phase_perm:
  assumes "mset ks = mset ks'"
  shows "map_option mset (reduce_phase stringify reducer ks pairs)
           = map_option mset (reduce_phase stringify reducer ks' pairs)"
proof -
  have "set ks = set ks'" using assms by (rule mset_eq_setD)
  then have ok: "list_all P ks = list_all P ks'" for P
    by (simp add: list_all_iff)
  let ?out = "\<lambda>k. fst (reducer k (map stringify (group_values k pairs)))"
  have "mset (concat (map ?out ks)) = mset (concat (map ?out ks'))"
    by (rule mset_concat_map_perm [OF assms])
  then show ?thesis
    by (cases "list_all (\<lambda>k. snd (reducer k (map stringify (group_values k pairs))) = None) ks'")
      (simp_all only: reduce_phase_def ok if_True if_False option.map)
qed

lemma run_job_perm:
  assumes "mset ks = mset ks'"
  shows "map_option mset (run_job mapper stringify reducer ks records)
           = map_option mset (run_job mapper stringify reducer ks' records)"
  by (cases "map_phase mapper records") (simp_all add: run_job_def reduce_phase_perm [OF assms])

text \<open>
  The accumulators of the annotation reducer as functions of the group's values. The
  sums and the summed hit map depend on the values of other versions only as a
  multiset; the ALL fields depend on the list of values of version \<open>VERSION_ALL\<close>.
\<close>

lemma sum_hit_step_map_of:
  "map_of (case defaultdict_get d m of (v, d') \<Rightarrow> AList.update m (v + c) d')
     = (map_of d)(m \<mapsto> fst (defaultdict_get d m) + c)"
  by (auto simp: defaultdict_get_def update_conv' fun_eq_iff map_add_def split: option.splits)

lemma sum_hit_fold_count:
  "fst (defaultdict_get
          (fold (\<lambda>(state_name, counts) d.
                   (case defaultdict_get d state_name of
                      (v, d') \<Rightarrow> AList.update state_name (v + counts) d')) xs d) n)
     = fst (defaultdict_get d n) + sum_list (map snd (filter (\<lambda>p. fst p = n) xs))"
proof (induction xs arbitrary: d)
  case Nil
  then show ?case by simp
next
  case (Cons x xs)
  obtain m c where x: "x = (m, c)" by (cases x)
  let ?d = "case defaultdict_get d m of (v, d') \<Rightarrow> AList.update m (v + c) d'"
  have "fst (defaultdict_get ?d n) = fst (defaultdict_get d n) + (if m = n then c else 0)"
    using sum_hit_step_map_of [where d = d and m = m and c = c]
    by (auto simp: defaultdict_get_def [of ?d] split: option.splits)
       (auto simp: defaultdict_get_def split: option.splits)
  then show ?case using Cons.IH [of ?d] by (simp add: x)
qed

lemma sum_hit_fold_None:
  "map_of (fold (\<lambda>(state_name, counts) d.
                   (case defaultdict_get d state_name of
                      (v, d') \<Rightarrow> AList.update state_name (v + counts) d')) xs d) n = None
     \<longleftrightarrow> map_of d n = None \<and> n \<notin> fst ` set xs"
proof (induction xs arbitrary: d)
  case Nil
  then show ?case by simp
next
  case (Cons x xs)
  obtain m c where x: "x = (m, c)" by (cases x)
  let ?d = "case defaultdict_get d m of (v, d') \<Rightarrow> AList.update m (v + c) d'"
  have "map_of ?d n = None \<longleftrightarrow> map_of d n = None \<and> n \<noteq> m"
    using sum_hit_step_map_of [where d = d and m = m and c = c] by auto
  then show ?case using Cons.IH [of ?d] by (auto simp: x)
qed


lemma accumulate_sum_fields:
  "version v \<noteq> va \<Longrightarrow>
     sum_starts (accumulate va v t) = sum_starts t + starts v
     \<and> sum_completions (accumulate va v t) = sum_completions t + completions v
     \<and> sum_state_hit (accumulate va v t) =
         fold (\<lambda>(state_name, counts) d.
                 (case defaultdict_get d state_name of
                    (v, d') \<Rightarrow> AList.update state_name (v + counts) d'))
           (state_hit v) (sum_state_hit t)"
  by (simp add: accumulate_def)

lemma accumulate_all_sum_fields:
  "version v = va \<Longrightarrow>
     sum_starts (accumulate va v t) = sum_starts t
     \<and> sum_completions (accumulate va v t) = sum_completions t
     \<and> sum_state_hit (accumulate va v t) = sum_state_hit t"
  by (simp add: accumulate_def)

lemma fold_accumulate_sum_starts:
  "sum_starts (fold (accumulate va) ds t)
     = sum_starts t + sum_list (map starts (filter (\<lambda>d. version d \<noteq> va) ds))"
proof (induction ds arbitrary: t)
  case Nil
  then show ?case by simp
next
  case (Cons x xs)
  show ?case
    using Cons.IH [of "accumulate va x t"]
    by (cases "version x = va") (simp_all add: accumulate_sum_fields accumulate_all_sum_fields)
qed

lemma fold_accumulate_sum_completions:
  "sum_completions (fold (accumulate va) ds t)
     = sum_completions t + sum_list (map completions (filter (\<lambda>d. version d \<noteq> va) ds))"
proof (induction ds arbitrary: t)
  case Nil
  then show ?case by simp
next
  case (Cons x xs)
  show ?case
    using Cons.IH [of "accumulate va x t"]
    by (cases "version x = va") (simp_all add: accumulate_sum_fields accumulate_all_sum_fields)
qed

lemma fold_accumulate_sum_state_hit:
  "sum_state_hit (fold (accumulate va) ds t)
     = fold (\<lambda>(state_name, counts) d.
               (case defaultdict_get d state_name of
                  (v, d') \<Rightarrow> AList.update state_name (v + counts) d'))
         (concat (map state_hit (filter (\<lambda>d. version d \<noteq> va) ds))) (sum_state_hit t)"
proof (induction ds arbitrary: t)
  case Nil
  then show ?case by simp
next
  case (Cons x xs)
  show ?case
    using Cons.IH [of "accumulate va x t"]
    by (cases "version x = va") (simp_all add: accumulate_sum_fields accumulate_all_sum_fields)
qed

lemma fold_accumulate_all_state_hit_list:
  "all_state_hit (fold (accumulate va) ds t)
     = fold (\<lambda>d. fold (\<lambda>(state_name, counts) h. AList.update state_name counts h) (state_hit d))
         (filter (\<lambda>d. version d = va) ds) (all_state_hit t)"
proof (induction ds arbitrary: t)
  case Nil
  then show ?case by simp
next
  case (Cons x xs)
  show ?case
    using Cons.IH [of "accumulate va x t"]
    by (cases "version x = va") (simp_all add: accumulate_all accumulate_other)
qed

lemma filter_at_most_one_perm:
  assumes "mset xs = mset ys" and "length (filter P xs) \<le> 1"
  shows "filter P xs = filter P ys"
proof -
  have m: "mset (filter P xs) = mset (filter P ys)" using assms(1) by simp
  show ?thesis
  proof (cases "filter P xs")
    case Nil
    then show ?thesis using m by simp
  next
    case (Cons a as)
    then have as: "as = []" using assms(2) by simp
    from m Cons as have e: "mset (filter P ys) = mset [a]" by simp
    then have "length (filter P ys) = length [a]" by (rule mset_eq_length)
    then obtain b where b: "filter P ys = [b]" by (cases "filter P ys") auto
    with e have "b = a" by (simp del: mset_filter)
    then show ?thesis using Cons as b by simp
  qed
qed

lemma sum_list_perm:
  fixes f :: "'a \<Rightarrow> int"
  assumes "mset xs = mset ys"
  shows "sum_list (map f xs) = sum_list (map f ys)"
proof -
  have "sum_list (map f xs) = sum_mset (image_mset f (mset xs))"
    by (simp add: sum_mset_sum_list [symmetric])
  also have "\<dots> = sum_mset (image_mset f (mset ys))" using assms by simp
  also have "\<dots> = sum_list (map f ys)" by (simp add: sum_mset_sum_list [symmetric])
  finally show ?thesis .
qed


lemma map_of_eq_by_count:
  assumes "map_of d1 n = None \<longleftrightarrow> map_of d2 n = None"
    and "fst (defaultdict_get d1 n) = fst (defaultdict_get d2 n)"
  shows "map_of d1 n = map_of d2 n"
  using assms by (auto simp: defaultdict_get_def split: option.splits)

lemma totals_perm:
  assumes perm: "mset ds = mset ds'"
    and one: "length (filter (\<lambda>d. version d = va) ds) \<le> 1"
  shows "all_starts (fold (accumulate va) ds t) = all_starts (fold (accumulate va) ds' t)"
    and "all_completions (fold (accumulate va) ds t) = all_completions (fold (accumulate va) ds' t)"
    and "all_state_hit (fold (accumulate va) ds t) = all_state_hit (fold (accumulate va) ds' t)"
    and "sum_starts (fold (accumulate va) ds t) = sum_starts (fold (accumulate va) ds' t)"
    and "sum_completions (fold (accumulate va) ds t) = sum_completions (fold (accumulate va) ds' t)"
    and "map_of (sum_state_hit (fold (accumulate va) ds t)) n
           = map_of (sum_state_hit (fold (accumulate va) ds' t)) n"
proof -
  have alls: "filter (\<lambda>d. version d = va) ds = filter (\<lambda>d. version d = va) ds'"
    by (rule filter_at_most_one_perm [OF perm one])
  have others: "mset (filter (\<lambda>d. version d \<noteq> va) ds) = mset (filter (\<lambda>d. version d \<noteq> va) ds')"
    using perm by simp
  let ?es = "concat (map state_hit (filter (\<lambda>d. version d \<noteq> va) ds))"
  let ?es' = "concat (map state_hit (filter (\<lambda>d. version d \<noteq> va) ds'))"
  have entries: "mset ?es = mset ?es'"
    by (rule mset_concat_map_perm [OF others])
  show "all_starts (fold (accumulate va) ds t) = all_starts (fold (accumulate va) ds' t)"
    by (simp only: fold_accumulate_all_starts alls)
  show "all_completions (fold (accumulate va) ds t) = all_completions (fold (accumulate va) ds' t)"
    by (simp only: fold_accumulate_all_completions alls)
  show "all_state_hit (fold (accumulate va) ds t) = all_state_hit (fold (accumulate va) ds' t)"
    by (simp only: fold_accumulate_all_state_hit_list alls)
  show "sum_starts (fold (accumulate va) ds t) = sum_starts (fold (accumulate va) ds' t)"
    by (simp only: fold_accumulate_sum_starts sum_list_perm [OF others])
  show "sum_completions (fold (accumulate va) ds t) = sum_completions (fold (accumulate va) ds' t)"
    by (simp only: fold_accumulate_sum_completions sum_list_perm [OF others])
  show "map_of (sum_state_hit (fold (accumulate va) ds t)) n
           = map_of (sum_state_hit (fold (accumulate va) ds' t)) n"
  proof (rule map_of_eq_by_count)
    have "set ?es = set ?es'" using entries by (rule mset_eq_setD)
    then show "map_of (sum_state_hit (fold (accumulate va) ds t)) n = None
        \<longleftrightarrow> map_of (sum_state_hit (fold (accumulate va) ds' t)) n = None"
      by (simp only: fold_accumulate_sum_state_hit sum_hit_fold_None)
    have "mset (filter (\<lambda>p. fst p = n) ?es) = mset (filter (\<lambda>p. fst p = n) ?es')"
      using entries by (simp only: mset_filter)
    then have "sum_list (map snd (filter (\<lambda>p. fst p = n) ?es))
        = sum_list (map snd (filter (\<lambda>p. fst p = n) ?es'))"
      by (rule sum_list_perm)
    then show "fst (defaultdict_get (sum_state_hit (fold (accumulate va) ds t)) n)
        = fst (defaultdict_get (sum_state_hit (fold (accumulate va) ds' t)) n)"
      by (simp only: fold_accumulate_sum_state_hit sum_hit_fold_count)
  qed
qed

lemma reduce_lines_perm:
  assumes k: "k \<noteq> STATE_COUNTER_ERROR_KEY"
    and dec: "map literal_eval vs = map Inr ds" and dec': "map literal_eval vs' = map Inr ds'"
    and perm: "mset ds = mset ds'"
    and one: "length (filter (\<lambda>d. version d = va) ds) \<le> 1"
  shows "mset (fst (StatisticsAudit_reduce literal_eval va k vs))
           = mset (fst (StatisticsAudit_reduce literal_eval va k vs'))"
proof -
  let ?T = "fold (accumulate va) ds initial_totals"
  let ?T' = "fold (accumulate va) ds' initial_totals"
  note tp = totals_perm [OF perm one, of initial_totals]
  have tot: "totals_check k ?T = totals_check k ?T'"
    by (simp only: totals_check_def tp)
  have dist: "distinct (map fst (all_state_hit ?T))"
    by (rule fold_accumulate_distinct) (simp add: initial_totals_def)
  have "state_hit_loop k (all_state_hit ?T) (map fst (all_state_hit ?T)) (sum_state_hit ?T)
      = concat (map (\<lambda>n. fst (state_hit_step k (all_state_hit ?T) n (sum_state_hit ?T)))
                  (map fst (all_state_hit ?T)))"
    by (rule state_hit_loop_concat [OF dist])
  also have "\<dots> = concat (map (\<lambda>n. fst (state_hit_step k (all_state_hit ?T) n (sum_state_hit ?T')))
                  (map fst (all_state_hit ?T)))"
    using state_hit_step_cong [OF tp(6)] by simp
  also have "\<dots> = state_hit_loop k (all_state_hit ?T) (map fst (all_state_hit ?T)) (sum_state_hit ?T')"
    by (rule state_hit_loop_concat [OF dist, symmetric])
  finally have hits:
    "state_hit_loop k (all_state_hit ?T) (map fst (all_state_hit ?T)) (sum_state_hit ?T)
      = state_hit_loop k (all_state_hit ?T') (map fst (all_state_hit ?T')) (sum_state_hit ?T')"
    by (simp only: tp(3))
  have checks: "mset (concat (map (value_checks k) ds)) = mset (concat (map (value_checks k) ds'))"
    by (rule mset_concat_map_perm [OF perm])
  show ?thesis
    using checks
    by (simp only: reduce_decoded [OF k dec] reduce_decoded [OF k dec'] fst_conv mset_append tot hits)
qed


lemma StatisticsAudit_map_no_error: "snd (StatisticsAudit_map r) = None"
  by (cases r) (simp_all split: option.splits)

lemma StatisticsAudit_map_message_key:
  "(k, Message m) \<in> set (fst (StatisticsAudit_map r)) \<Longrightarrow> k = STATE_COUNTER_ERROR_KEY"
  by (cases r) (auto split: option.splits if_splits)

lemma map_phase_StatisticsAudit:
  "map_phase StatisticsAudit_map records
     = Some (concat (map (\<lambda>r. fst (StatisticsAudit_map r)) records))"
  by (simp add: map_phase_def StatisticsAudit_map_no_error list_all_iff)

lemma group_values_perm:
  "mset pairs = mset pairs' \<Longrightarrow> mset (group_values k pairs) = mset (group_values k pairs')"
  by (simp add: group_values_def)

lemma set_group_values: "v \<in> set (group_values k pairs) \<longleftrightarrow> (k, v) \<in> set pairs"
  by (auto simp: group_values_def image_iff)

lemma mset_concat_map_perm2:
  assumes "mset ks = mset ks'" and "\<And>k. mset (f k) = mset (g k)"
  shows "mset (concat (map f ks)) = mset (concat (map g ks'))"
proof -
  have "mset (concat (map f ks)) = mset (concat (map g ks))"
    using assms(2) by (induction ks) simp_all
  then show ?thesis using mset_concat_map_perm [OF assms(1), of g] by simp
qed


lemma stats_group_perm:
  fixes pairs pairs' :: "(string \<times> stats_value) list"
  assumes perm: "mset pairs = mset pairs'"
    and msgs: "\<And>k' m. (k', Message m) \<in> set pairs \<Longrightarrow> k' = STATE_COUNTER_ERROR_KEY"
    and rt: "\<And>k' a. (k', Annotation a) \<in> set pairs
               \<Longrightarrow> literal_eval (stringify (Annotation a)) = Inr a"
    and one: "length (filter (\<lambda>v. \<exists>a. v = Annotation a \<and> version a = va)
                        (group_values k pairs)) \<le> 1"
  shows "mset (fst (StatisticsAudit_reduce literal_eval va k (map stringify (group_values k pairs))))
       = mset (fst (StatisticsAudit_reduce literal_eval va k (map stringify (group_values k pairs'))))
       \<and> snd (StatisticsAudit_reduce literal_eval va k (map stringify (group_values k pairs))) = None
       \<and> snd (StatisticsAudit_reduce literal_eval va k (map stringify (group_values k pairs'))) = None"
proof (cases "k = STATE_COUNTER_ERROR_KEY")
  case True
  have "mset (map stringify (group_values k pairs)) = mset (map stringify (group_values k pairs'))"
    using group_values_perm [OF perm, of k] by simp
  then show ?thesis using True by (simp add: StatisticsAudit_reduce_def)
next
  case False
  define proj where "proj = (\<lambda>v. case v of Annotation a \<Rightarrow> a
                               | Message m \<Rightarrow> \<lparr>version = [], starts = 0, completions = 0, state_hit = []\<rparr>)"
  let ?g = "group_values k pairs"
  let ?g' = "group_values k pairs'"
  have sets: "set pairs' = set pairs" using perm by (metis mset_eq_setD)
  have ann: "v = Annotation (proj v) \<and> literal_eval (stringify v) = Inr (proj v)"
    if "(k, v) \<in> set pairs" for v
  proof (cases v)
    case (Message m)
    then show ?thesis using msgs [of k m] that False by simp
  next
    case (Annotation a)
    then show ?thesis using rt [of k a] that by (simp add: proj_def)
  qed
  have dec: "map literal_eval (map stringify ?g) = map Inr (map proj ?g)"
    using ann by (simp add: set_group_values)
  have dec': "map literal_eval (map stringify ?g') = map Inr (map proj ?g')"
    using ann sets by (simp add: set_group_values)
  have perm_ds: "mset (map proj ?g) = mset (map proj ?g')"
    using group_values_perm [OF perm, of k] by simp
  have "filter (\<lambda>d. version d = va) (map proj ?g)
          = map proj (filter (\<lambda>v. version (proj v) = va) ?g)"
    by (simp add: filter_map comp_def)
  also have "filter (\<lambda>v. version (proj v) = va) ?g
          = filter (\<lambda>v. \<exists>a. v = Annotation a \<and> version a = va) ?g"
  proof (rule filter_cong [OF refl])
    fix v assume "v \<in> set ?g"
    then have "v = Annotation (proj v)" using ann by (simp add: set_group_values)
    then show "(version (proj v) = va) = (\<exists>a. v = Annotation a \<and> version a = va)"
      by (metis stats_value.inject(2))
  qed
  finally have one': "length (filter (\<lambda>d. version d = va) (map proj ?g)) \<le> 1"
    using one by simp
  have "mset (fst (StatisticsAudit_reduce literal_eval va k (map stringify ?g)))
       = mset (fst (StatisticsAudit_reduce literal_eval va k (map stringify ?g')))"
    by (rule reduce_lines_perm [OF False dec dec' perm_ds one'])
  moreover have "snd (StatisticsAudit_reduce literal_eval va k (map stringify ?g)) = None"
    by (simp only: reduce_decoded [OF False dec] snd_conv)
  moreover have "snd (StatisticsAudit_reduce literal_eval va k (map stringify ?g')) = None"
    by (simp only: reduce_decoded [OF False dec'] snd_conv)
  ultimately show ?thesis by blast
qed

lemma stats_run_perm:
  assumes keys: "mset ks = mset ks'" and recs: "mset stats_records = mset stats_records'"
    and rt: "\<forall>r \<in> set stats_records. \<forall>k a.
               (k, Annotation a) \<in> set (fst (StatisticsAudit_map r))
               \<longrightarrow> literal_eval (stringify (Annotation a)) = Inr a"
    and one: "\<forall>k. length (filter (\<lambda>v. \<exists>a. v = Annotation a \<and> version a = va)
                 (group_values k (concat (map (\<lambda>r. fst (StatisticsAudit_map r)) stats_records))))
               \<le> 1"
  shows "\<exists>lines lines'.
           run_job StatisticsAudit_map stringify (StatisticsAudit_reduce literal_eval va)
             ks stats_records = Some lines
           \<and> run_job StatisticsAudit_map stringify (StatisticsAudit_reduce literal_eval va)
               ks' stats_records' = Some lines'
           \<and> mset lines = mset lines'"
proof -
  let ?pairs = "concat (map (\<lambda>r. fst (StatisticsAudit_map r)) stats_records)"
  let ?pairs' = "concat (map (\<lambda>r. fst (StatisticsAudit_map r)) stats_records')"
  let ?out = "\<lambda>k. StatisticsAudit_reduce literal_eval va k (map stringify (group_values k ?pairs))"
  let ?out' = "\<lambda>k. StatisticsAudit_reduce literal_eval va k (map stringify (group_values k ?pairs'))"
  have perm: "mset ?pairs = mset ?pairs'"
    by (rule mset_concat_map_perm [OF recs])
  have msgs: "k' = STATE_COUNTER_ERROR_KEY" if "(k', Message m) \<in> set ?pairs" for k' m
    using that StatisticsAudit_map_message_key by auto
  have rt': "literal_eval (stringify (Annotation a)) = Inr a"
    if "(k', Annotation a) \<in> set ?pairs" for k' a
    using that rt by auto
  have key: "mset (fst (?out k)) = mset (fst (?out' k)) \<and> snd (?out k) = None \<and> snd (?out' k) = None"
    for k
  proof (rule stats_group_perm [OF perm])
    show "k' = STATE_COUNTER_ERROR_KEY" if "(k', Message m) \<in> set ?pairs" for k' m
      using that by (rule msgs)
    show "literal_eval (stringify (Annotation a)) = Inr a"
      if "(k', Annotation a) \<in> set ?pairs" for k' a
      using that by (rule rt')
    show "length (filter (\<lambda>v. \<exists>a. v = Annotation a \<and> version a = va)
                 (group_values k ?pairs)) \<le> 1"
      using one by blast
  qed
  have r1: "run_job StatisticsAudit_map stringify (StatisticsAudit_reduce literal_eval va)
             ks stats_records = Some (concat (map (\<lambda>k. fst (?out k)) ks))"
    using key by (simp add: run_job_def map_phase_StatisticsAudit reduce_phase_def list_all_iff)
  have r2: "run_job StatisticsAudit_map stringify (StatisticsAudit_reduce literal_eval va)
             ks' stats_records' = Some (concat (map (\<lambda>k. fst (?out' k)) ks'))"
    using key by (simp add: run_job_def map_phase_StatisticsAudit reduce_phase_def list_all_iff)
  have "mset (concat (map (\<lambda>k. fst (?out k)) ks)) = mset (concat (map (\<lambda>k. fst (?out' k)) ks'))"
    using key by (intro mset_concat_map_perm2 [OF keys]) blast
  with r1 r2 show ?thesis by blast
qed

lemma decoded_member:
  "map f vs = map Inr ds \<Longrightarrow> v \<in> set vs \<Longrightarrow> \<exists>d \<in> set ds. f v = Inr d"
proof (induction vs arbitrary: ds)
  case Nil
  then show ?case by simp
next
  case (Cons x xs)
  then obtain d ds' where "ds = d # ds'" "f x = Inr d" "map f xs = map Inr ds'"
    by (cases ds) auto
  then show ?case using Cons.IH [of ds'] Cons.prems(2) by auto
qed

lemma decoded_list:
  "\<forall>v \<in> set vs. \<exists>d \<in> S. f v = Inr d \<Longrightarrow> \<exists>ds. map f vs = map Inr ds \<and> set ds \<subseteq> S"
proof (induction vs)
  case Nil
  then show ?case by simp
next
  case (Cons x xs)
  then obtain ds where ds: "map f xs = map Inr ds" "set ds \<subseteq> S" by auto
  from Cons.prems obtain d where d: "d \<in> S" "f x = Inr d" by auto
  have "map f (x # xs) = map Inr (d # ds) \<and> set (d # ds) \<subseteq> S" using ds d by simp
  then show ?case by blast
qed

lemma answers_reduce_uniform:
  assumes dec: "map literal_eval vs = map Inr ds"
    and uni: "\<forall>d \<in> set ds. map_of d ''reduce_type'' = Some t"
    and t: "t \<noteq> []" "t \<noteq> HANDLER_NAME_COUNTER_KEY"
    and ne: "vs \<noteq> []"
  shows "AnswersAudit_reduce literal_eval str_list k vs =
           (if t = HANDLER_FUZZY_RULE_COUNTER_KEY
            then [''Found fuzzy rules '' @ str_int (int (length vs)) @ '' time(s)'']
            else if t = HANDLER_DEFAULT_RULE_COUNTER_KEY
            then [''Found default rules '' @ str_int (int (length vs)) @ '' time(s)'']
            else if t = HANDLER_STANDARD_RULE_COUNTER_KEY
            then [''Found rule type \"'' @ k @ ''\" '' @ str_int (int (length vs)) @ '' time(s)'']
            else if t = HANDLER_ERROR_RULE_COUNTER_KEY
            then [''Encountered invalid rule string '' @ str_int (int (length vs))
                  @ '' time(s) (is it too long?): \"'' @ k @ ''\"'']
            else [''Internal error 2''], None)"
proof -
  have ds: "ds \<noteq> []" using dec ne by auto
  then have hd: "map_of (hd ds) ''reduce_type'' = Some t" using uni by (cases ds) auto
  have all: "\<forall>d \<in> set ds. \<exists>t'. map_of d ''reduce_type'' = Some t' \<and> t' \<noteq> []"
    using uni t(1) by auto
  have "filter (\<lambda>d. map_of d ''reduce_type'' \<noteq> map_of (hd ds) ''reduce_type'') ds = []"
    using uni hd by (simp add: filter_empty_conv)
  then have loop: "reduce_type_loop literal_eval vs None = ([], Inr (Some t))"
    using reduce_type_loop_None [OF dec all] ds hd by simp
  show ?thesis using t(2) by (simp add: AnswersAudit_reduce_def loop Let_def)
qed

lemma answers_reduce_uniform_perm:
  assumes gperm: "mset vs = mset vs'" and gdec: "map literal_eval vs = map Inr ds"
    and guni: "\<forall>d \<in> set ds. map_of d ''reduce_type'' = Some t"
    and gt: "t \<noteq> []" "t \<noteq> HANDLER_NAME_COUNTER_KEY"
  shows "AnswersAudit_reduce literal_eval str_list h vs
           = AnswersAudit_reduce literal_eval str_list h vs'"
proof (cases "vs = []")
  case True
  then have "vs' = []" using gperm by simp
  with True show ?thesis by simp
next
  case False
  then have ne': "vs' \<noteq> []" using gperm by auto
  have len: "length vs = length vs'" using gperm by (rule mset_eq_length)
  have "set vs' = set vs" using gperm by (metis mset_eq_setD)
  then have "\<forall>v \<in> set vs'. \<exists>d \<in> set ds. literal_eval v = Inr d"
    using decoded_member [OF gdec] by blast
  from decoded_list [OF this] obtain ds'
    where dec': "map literal_eval vs' = map Inr ds'" and sub: "set ds' \<subseteq> set ds" by blast
  have uni': "\<forall>d \<in> set ds'. map_of d ''reduce_type'' = Some t" using guni sub by blast
  show ?thesis
    by (simp only: answers_reduce_uniform [OF gdec guni gt False]
        answers_reduce_uniform [OF dec' uni' gt ne'] len)
qed

text \<open>
  Claim C9, as the source has it. The mapper and the reducer of both jobs are functions
  of their arguments, but the diagnostic lines are not a function of the set of records
  alone: they depend on the order in which the values of a key arrive. What holds:

  \<^item> StatisticsAudit: two runs over the same records, in any order of the records and
    any order of the keys, both complete and give the same multiset of lines, when
    each annotation value is read back as it was written and no key has more than one
    value of version \<open>VERSION_ALL\<close>.

  \<^item> AnswersAudit: two runs over the same sequence of records give the same multiset
    of lines, or are both abandoned, whatever the order of the keys; and a group whose
    values all decode and carry one non-empty \<open>reduce_type\<close> other than
    \<^verbatim>\<open>HandlerCounter\<close> gives the same result in every order of its values.
\<close>

theorem two_runs_same_lines:
  assumes "mset ks = mset ks'" and "mset stats_records = mset stats_records'"
    and "\<forall>r \<in> set stats_records. \<forall>k a.
               (k, Annotation a) \<in> set (fst (StatisticsAudit_map r))
               \<longrightarrow> literal_eval (stringify (Annotation a)) = Inr a"
    and "\<forall>k. length (filter (\<lambda>v. \<exists>a. v = Annotation a \<and> version a = VERSION_ALL)
                 (group_values k (concat (map (\<lambda>r. fst (StatisticsAudit_map r)) stats_records))))
               \<le> 1"
    and "mset hs = mset hs'"
    and "mset vs = mset vs'" and "map literal_eval_dict vs = map Inr ds"
    and "\<forall>d \<in> set ds. map_of d ''reduce_type'' = Some t"
    and "t \<noteq> []" and "t \<noteq> HANDLER_NAME_COUNTER_KEY"
  shows "(\<exists>lines lines'.
           run_job StatisticsAudit_map stringify (StatisticsAudit_reduce literal_eval VERSION_ALL)
             ks stats_records = Some lines
           \<and> run_job StatisticsAudit_map stringify (StatisticsAudit_reduce literal_eval VERSION_ALL)
               ks' stats_records' = Some lines'
           \<and> mset lines = mset lines')
       \<and> map_option mset
           (run_job AnswersAudit_map stringify_dict
              (AnswersAudit_reduce literal_eval_dict str_list) hs answer_records)
         = map_option mset
           (run_job AnswersAudit_map stringify_dict
              (AnswersAudit_reduce literal_eval_dict str_list) hs' answer_records)
       \<and> AnswersAudit_reduce literal_eval_dict str_list h vs
           = AnswersAudit_reduce literal_eval_dict str_list h vs'"
  using stats_run_perm [OF assms(1-4)] run_job_perm [OF assms(5)]
    answers_reduce_uniform_perm [OF assms(6-10)]
  by blast

theorem two_runs_same_lines_witness:
  "(\<exists>lines lines'.
      run_job StatisticsAudit_map
         (case_option [] id \<circ> map_of
            [(Annotation \<lparr>version = ''all'', starts = 3, completions = 1, state_hit = [(''A'', 2)]\<rparr>, ''a''),
             (Annotation \<lparr>version = ''1'', starts = 2, completions = 1, state_hit = [(''A'', 1)]\<rparr>, ''b''),
             (Annotation \<lparr>version = ''2'', starts = 1, completions = 1, state_hit = [(''A'', 2)]\<rparr>, ''c''),
             (Message ''Less than 0: e1.A -1'', ''m'')])
         (StatisticsAudit_reduce
         (case_option (Inl ValueError) Inr \<circ> map_of
            [(''a'', \<lparr>version = ''all'', starts = 3, completions = 1, state_hit = [(''A'', 2)]\<rparr>),
             (''b'', \<lparr>version = ''1'', starts = 2, completions = 1, state_hit = [(''A'', 1)]\<rparr>),
             (''c'', \<lparr>version = ''2'', starts = 1, completions = 1, state_hit = [(''A'', 2)]\<rparr>)])
          ''all'')
         [''e1'', ''State Counter ERROR'']
         [ExplorationAnnotations \<lparr>exploration_id = Some ''e1'', version = ''all'', num_starts = 3,
            num_completions = 1, state_hit_counts = [(''A'', 2)]\<rparr>,
          ExplorationAnnotations \<lparr>exploration_id = Some ''e1'', version = ''1'', num_starts = 2,
            num_completions = 1, state_hit_counts = [(''A'', 1)]\<rparr>,
          ExplorationAnnotations \<lparr>exploration_id = Some ''e1'', version = ''2'', num_starts = 1,
            num_completions = 1, state_hit_counts = [(''A'', 2)]\<rparr>,
          StateCounter \<lparr>key = ''e1.A'', first_entry_count = - 1\<rparr>] = Some lines
      \<and> run_job StatisticsAudit_map
         (case_option [] id \<circ> map_of
            [(Annotation \<lparr>version = ''all'', starts = 3, completions = 1, state_hit = [(''A'', 2)]\<rparr>, ''a''),
             (Annotation \<lparr>version = ''1'', starts = 2, completions = 1, state_hit = [(''A'', 1)]\<rparr>, ''b''),
             (Annotation \<lparr>version = ''2'', starts = 1, completions = 1, state_hit = [(''A'', 2)]\<rparr>, ''c''),
             (Message ''Less than 0: e1.A -1'', ''m'')])
         (StatisticsAudit_reduce
         (case_option (Inl ValueError) Inr \<circ> map_of
            [(''a'', \<lparr>version = ''all'', starts = 3, completions = 1, state_hit = [(''A'', 2)]\<rparr>),
             (''b'', \<lparr>version = ''1'', starts = 2, completions = 1, state_hit = [(''A'', 1)]\<rparr>),
             (''c'', \<lparr>version = ''2'', starts = 1, completions = 1, state_hit = [(''A'', 2)]\<rparr>)])
          ''all'')
         [''State Counter ERROR'', ''e1'']
         [StateCounter \<lparr>key = ''e1.A'', first_entry_count = - 1\<rparr>,
          ExplorationAnnotations \<lparr>exploration_id = Some ''e1'', version = ''2'', num_starts = 1,
            num_completions = 1, state_hit_counts = [(''A'', 2)]\<rparr>,
          ExplorationAnnotations \<lparr>exploration_id = Some ''e1'', version = ''all'', num_starts = 3,
            num_completions = 1, state_hit_counts = [(''A'', 2)]\<rparr>,
          ExplorationAnnotations \<lparr>exploration_id = Some ''e1'', version = ''1'', num_starts = 2,
            num_completions = 1, state_hit_counts = [(''A'', 1)]\<rparr>] = Some lines'
      \<and> mset lines = mset lines')
   \<and> map_option mset
       (run_job AnswersAudit_map
         (case_option [] id \<circ> map_of
            [([(''reduce_type'', ''HandlerCounter''), (''rule_spec_str'', ''e.s.h.Equals(x)'')], ''x''),
             ([(''reduce_type'', ''StandardRuleCounter''), (''rule_str'', ''Equals(x)''),
               (''rule_args'', ''x'')], ''y'')])
         (AnswersAudit_reduce
         (case_option (Inl ValueError) Inr \<circ> map_of
            [(''x'', [(''reduce_type'', ''HandlerCounter''), (''rule_spec_str'', ''e.s.h.Equals(x)'')]),
             (''y'', [(''reduce_type'', ''StandardRuleCounter''), (''rule_str'', ''Equals(x)''),
                      (''rule_args'', ''x'')]),
             (''z'', [(''reduce_type'', ''StandardRuleCounter''), (''rule_str'', ''Equals(y)''),
                      (''rule_args'', ''y'')])])
          concat)
         [''h'', ''Equals''] [\<lparr>id' = ''e.s.h.Equals(x)''\<rparr>])
     = map_option mset
       (run_job AnswersAudit_map
         (case_option [] id \<circ> map_of
            [([(''reduce_type'', ''HandlerCounter''), (''rule_spec_str'', ''e.s.h.Equals(x)'')], ''x''),
             ([(''reduce_type'', ''StandardRuleCounter''), (''rule_str'', ''Equals(x)''),
               (''rule_args'', ''x'')], ''y'')])
         (AnswersAudit_reduce
         (case_option (Inl ValueError) Inr \<circ> map_of
            [(''x'', [(''reduce_type'', ''HandlerCounter''), (''rule_spec_str'', ''e.s.h.Equals(x)'')]),
             (''y'', [(''reduce_type'', ''StandardRuleCounter''), (''rule_str'', ''Equals(x)''),
                      (''rule_args'', ''x'')]),
             (''z'', [(''reduce_type'', ''StandardRuleCounter''), (''rule_str'', ''Equals(y)''),
                      (''rule_args'', ''y'')])])
          concat)
         [''Equals'', ''h''] [\<lparr>id' = ''e.s.h.Equals(x)''\<rparr>])
   \<and> AnswersAudit_reduce
         (case_option (Inl ValueError) Inr \<circ> map_of
            [(''x'', [(''reduce_type'', ''HandlerCounter''), (''rule_spec_str'', ''e.s.h.Equals(x)'')]),
             (''y'', [(''reduce_type'', ''StandardRuleCounter''), (''rule_str'', ''Equals(x)''),
                      (''rule_args'', ''x'')]),
             (''z'', [(''reduce_type'', ''StandardRuleCounter''), (''rule_str'', ''Equals(y)''),
                      (''rule_args'', ''y'')])])
         concat ''Equals'' [''y'', ''z'']
     = AnswersAudit_reduce
         (case_option (Inl ValueError) Inr \<circ> map_of
            [(''x'', [(''reduce_type'', ''HandlerCounter''), (''rule_spec_str'', ''e.s.h.Equals(x)'')]),
             (''y'', [(''reduce_type'', ''StandardRuleCounter''), (''rule_str'', ''Equals(x)''),
                      (''rule_args'', ''x'')]),
             (''z'', [(''reduce_type'', ''StandardRuleCounter''), (''rule_str'', ''Equals(y)''),
                      (''rule_args'', ''y'')])])
         concat ''Equals'' [''z'', ''y'']
   \<and> run_job StatisticsAudit_map
         (case_option [] id \<circ> map_of
            [(Annotation \<lparr>version = ''all'', starts = 3, completions = 1, state_hit = [(''A'', 2)]\<rparr>, ''a''),
             (Annotation \<lparr>version = ''1'', starts = 2, completions = 1, state_hit = [(''A'', 1)]\<rparr>, ''b''),
             (Annotation \<lparr>version = ''2'', starts = 1, completions = 1, state_hit = [(''A'', 2)]\<rparr>, ''c''),
             (Message ''Less than 0: e1.A -1'', ''m'')])
         (StatisticsAudit_reduce
         (case_option (Inl ValueError) Inr \<circ> map_of
            [(''a'', \<lparr>version = ''all'', starts = 3, completions = 1, state_hit = [(''A'', 2)]\<rparr>),
             (''b'', \<lparr>version = ''1'', starts = 2, completions = 1, state_hit = [(''A'', 1)]\<rparr>),
             (''c'', \<lparr>version = ''2'', starts = 1, completions = 1, state_hit = [(''A'', 2)]\<rparr>)])
          ''all'')
         [''State Counter ERROR'', ''e1'']
         [StateCounter \<lparr>key = ''e1.A'', first_entry_count = - 1\<rparr>,
          ExplorationAnnotations \<lparr>exploration_id = Some ''e1'', version = ''2'', num_starts = 1,
            num_completions = 1, state_hit_counts = [(''A'', 2)]\<rparr>,
          ExplorationAnnotations \<lparr>exploration_id = Some ''e1'', version = ''all'', num_starts = 3,
            num_completions = 1, state_hit_counts = [(''A'', 2)]\<rparr>,
          ExplorationAnnotations \<lparr>exploration_id = Some ''e1'', version = ''1'', num_starts = 2,
            num_completions = 1, state_hit_counts = [(''A'', 1)]\<rparr>]
     = Some [''m'', ''Non-all != all for completions: exp_id:e1 sum: 2 all: 1'',
             ''state hit count not same exp_id: e1 state: A all: 2 sum:3'']
   \<and> AnswersAudit_reduce
         (case_option (Inl ValueError) Inr \<circ> map_of
            [(''x'', [(''reduce_type'', ''HandlerCounter''), (''rule_spec_str'', ''e.s.h.Equals(x)'')]),
             (''y'', [(''reduce_type'', ''StandardRuleCounter''), (''rule_str'', ''Equals(x)''),
                      (''rule_args'', ''x'')]),
             (''z'', [(''reduce_type'', ''StandardRuleCounter''), (''rule_str'', ''Equals(y)''),
                      (''rule_args'', ''y'')])])
         concat ''Equals'' [''z'', ''y'']
     = ([''Found rule type \"Equals\" 2 time(s)''], None)"
proof -
  have keys: "mset [''e1'', ''State Counter ERROR''] = mset [''State Counter ERROR'', ''e1'']" by simp
  have recs: "mset [ExplorationAnnotations \<lparr>exploration_id = Some ''e1'', version = ''all'', num_starts = 3,
            num_completions = 1, state_hit_counts = [(''A'', 2)]\<rparr>,
          ExplorationAnnotations \<lparr>exploration_id = Some ''e1'', version = ''1'', num_starts = 2,
            num_completions = 1, state_hit_counts = [(''A'', 1)]\<rparr>,
          ExplorationAnnotations \<lparr>exploration_id = Some ''e1'', version = ''2'', num_starts = 1,
            num_completions = 1, state_hit_counts = [(''A'', 2)]\<rparr>,
          StateCounter \<lparr>key = ''e1.A'', first_entry_count = - 1\<rparr>]
     = mset [StateCounter \<lparr>key = ''e1.A'', first_entry_count = - 1\<rparr>,
          ExplorationAnnotations \<lparr>exploration_id = Some ''e1'', version = ''2'', num_starts = 1,
            num_completions = 1, state_hit_counts = [(''A'', 2)]\<rparr>,
          ExplorationAnnotations \<lparr>exploration_id = Some ''e1'', version = ''all'', num_starts = 3,
            num_completions = 1, state_hit_counts = [(''A'', 2)]\<rparr>,
          ExplorationAnnotations \<lparr>exploration_id = Some ''e1'', version = ''1'', num_starts = 2,
            num_completions = 1, state_hit_counts = [(''A'', 1)]\<rparr>]"
    by simp
  have rt: "\<forall>r \<in> set [ExplorationAnnotations \<lparr>exploration_id = Some ''e1'', version = ''all'', num_starts = 3,
            num_completions = 1, state_hit_counts = [(''A'', 2)]\<rparr>,
          ExplorationAnnotations \<lparr>exploration_id = Some ''e1'', version = ''1'', num_starts = 2,
            num_completions = 1, state_hit_counts = [(''A'', 1)]\<rparr>,
          ExplorationAnnotations \<lparr>exploration_id = Some ''e1'', version = ''2'', num_starts = 1,
            num_completions = 1, state_hit_counts = [(''A'', 2)]\<rparr>,
          StateCounter \<lparr>key = ''e1.A'', first_entry_count = - 1\<rparr>]. \<forall>k a.
      (k, Annotation a) \<in> set (fst (StatisticsAudit_map r))
      \<longrightarrow> (case_option (Inl ValueError) Inr \<circ> map_of
            [(''a'', \<lparr>version = ''all'', starts = 3, completions = 1, state_hit = [(''A'', 2)]\<rparr>),
             (''b'', \<lparr>version = ''1'', starts = 2, completions = 1, state_hit = [(''A'', 1)]\<rparr>),
             (''c'', \<lparr>version = ''2'', starts = 1, completions = 1, state_hit = [(''A'', 2)]\<rparr>)])
          ((case_option [] id \<circ> map_of
            [(Annotation \<lparr>version = ''all'', starts = 3, completions = 1, state_hit = [(''A'', 2)]\<rparr>, ''a''),
             (Annotation \<lparr>version = ''1'', starts = 2, completions = 1, state_hit = [(''A'', 1)]\<rparr>, ''b''),
             (Annotation \<lparr>version = ''2'', starts = 1, completions = 1, state_hit = [(''A'', 2)]\<rparr>, ''c''),
             (Message ''Less than 0: e1.A -1'', ''m'')])
           (Annotation a)) = Inr a"
    by auto
  have one: "\<forall>k. length (filter (\<lambda>v. \<exists>a. v = Annotation a \<and> version a = ''all'')
         (group_values k (concat (map (\<lambda>r. fst (StatisticsAudit_map r))
         [ExplorationAnnotations \<lparr>exploration_id = Some ''e1'', version = ''all'', num_starts = 3,
            num_completions = 1, state_hit_counts = [(''A'', 2)]\<rparr>,
          ExplorationAnnotations \<lparr>exploration_id = Some ''e1'', version = ''1'', num_starts = 2,
            num_completions = 1, state_hit_counts = [(''A'', 1)]\<rparr>,
          ExplorationAnnotations \<lparr>exploration_id = Some ''e1'', version = ''2'', num_starts = 1,
            num_completions = 1, state_hit_counts = [(''A'', 2)]\<rparr>,
          StateCounter \<lparr>key = ''e1.A'', first_entry_count = - 1\<rparr>])))) \<le> 1"
    by (simp add: group_values_def)
  have hkeys: "mset [''h'', ''Equals''] = mset [''Equals'', ''h'']" by simp
  have gperm: "mset [''y'', ''z''] = mset [''z'', ''y'']" by simp
  have gdec: "map (case_option (Inl ValueError) Inr \<circ> map_of
            [(''x'', [(''reduce_type'', ''HandlerCounter''), (''rule_spec_str'', ''e.s.h.Equals(x)'')]),
             (''y'', [(''reduce_type'', ''StandardRuleCounter''), (''rule_str'', ''Equals(x)''),
                      (''rule_args'', ''x'')]),
             (''z'', [(''reduce_type'', ''StandardRuleCounter''), (''rule_str'', ''Equals(y)''),
                      (''rule_args'', ''y'')])]) [''y'', ''z'']
      = map Inr [[(''reduce_type'', ''StandardRuleCounter''), (''rule_str'', ''Equals(x)''), (''rule_args'', ''x'')],
          [(''reduce_type'', ''StandardRuleCounter''), (''rule_str'', ''Equals(y)''), (''rule_args'', ''y'')]]"
    by simp
  have guni: "\<forall>d \<in> set [[(''reduce_type'', ''StandardRuleCounter''), (''rule_str'', ''Equals(x)''), (''rule_args'', ''x'')],
          [(''reduce_type'', ''StandardRuleCounter''), (''rule_str'', ''Equals(y)''), (''rule_args'', ''y'')]]. map_of d ''reduce_type'' = Some ''StandardRuleCounter''"
    by simp
  have t1: "''StandardRuleCounter'' \<noteq> []" by simp
  have t2: "''StandardRuleCounter'' \<noteq> HANDLER_NAME_COUNTER_KEY"
    by (simp add: HANDLER_NAME_COUNTER_KEY_def)
  have e1: "run_job StatisticsAudit_map
         (case_option [] id \<circ> map_of
            [(Annotation \<lparr>version = ''all'', starts = 3, completions = 1, state_hit = [(''A'', 2)]\<rparr>, ''a''),
             (Annotation \<lparr>version = ''1'', starts = 2, completions = 1, state_hit = [(''A'', 1)]\<rparr>, ''b''),
             (Annotation \<lparr>version = ''2'', starts = 1, completions = 1, state_hit = [(''A'', 2)]\<rparr>, ''c''),
             (Message ''Less than 0: e1.A -1'', ''m'')])
         (StatisticsAudit_reduce
         (case_option (Inl ValueError) Inr \<circ> map_of
            [(''a'', \<lparr>version = ''all'', starts = 3, completions = 1, state_hit = [(''A'', 2)]\<rparr>),
             (''b'', \<lparr>version = ''1'', starts = 2, completions = 1, state_hit = [(''A'', 1)]\<rparr>),
             (''c'', \<lparr>version = ''2'', starts = 1, completions = 1, state_hit = [(''A'', 2)]\<rparr>)])
          ''all'')
         [''State Counter ERROR'', ''e1'']
         [StateCounter \<lparr>key = ''e1.A'', first_entry_count = - 1\<rparr>,
          ExplorationAnnotations \<lparr>exploration_id = Some ''e1'', version = ''2'', num_starts = 1,
            num_completions = 1, state_hit_counts = [(''A'', 2)]\<rparr>,
          ExplorationAnnotations \<lparr>exploration_id = Some ''e1'', version = ''all'', num_starts = 3,
            num_completions = 1, state_hit_counts = [(''A'', 2)]\<rparr>,
          ExplorationAnnotations \<lparr>exploration_id = Some ''e1'', version = ''1'', num_starts = 2,
            num_completions = 1, state_hit_counts = [(''A'', 1)]\<rparr>]
     = Some [''m'', ''Non-all != all for completions: exp_id:e1 sum: 2 all: 1'',
             ''state hit count not same exp_id: e1 state: A all: 2 sum:3'']"
    by code_simp
  have e2: "AnswersAudit_reduce
         (case_option (Inl ValueError) Inr \<circ> map_of
            [(''x'', [(''reduce_type'', ''HandlerCounter''), (''rule_spec_str'', ''e.s.h.Equals(x)'')]),
             (''y'', [(''reduce_type'', ''StandardRuleCounter''), (''rule_str'', ''Equals(x)''),
                      (''rule_args'', ''x'')]),
             (''z'', [(''reduce_type'', ''StandardRuleCounter''), (''rule_str'', ''Equals(y)''),
                      (''rule_args'', ''y'')])])
         concat ''Equals'' [''z'', ''y'']
     = ([''Found rule type \"Equals\" 2 time(s)''], None)"
    by code_simp
  note main = two_runs_same_lines [OF keys recs rt one hkeys gperm gdec guni t1 t2,
      where stringify_dict = "(case_option [] id \<circ> map_of
            [([(''reduce_type'', ''HandlerCounter''), (''rule_spec_str'', ''e.s.h.Equals(x)'')], ''x''),
             ([(''reduce_type'', ''StandardRuleCounter''), (''rule_str'', ''Equals(x)''),
               (''rule_args'', ''x'')], ''y'')])"
        and str_list = concat and h = "''Equals''"
        and answer_records = "[\<lparr>id' = ''e.s.h.Equals(x)''\<rparr>]"]
  show ?thesis
    by (intro conjI) (rule main [THEN conjunct1] main [THEN conjunct2, THEN conjunct1]
        main [THEN conjunct2, THEN conjunct2] e1 e2)+
qed

text \<open>
  Claim C9, as the spec words it, fails: the same two answer records in the other order
  give another \<^verbatim>\<open>Found handler\<close> line, which lists the rule spec strings in the order of
  arrival, so the two multisets of lines differ. For StatisticsAudit, two records of
  version \<^verbatim>\<open>all\<close> for one exploration give another line in the other order, since the
  last one sets \<open>all_starts\<close>.
\<close>

theorem record_order_changes_lines:
  "mset [\<lparr>id' = ''e.s.h.Default''\<rparr>, \<lparr>id' = ''e.s.h.FuzzyMatches''\<rparr>]
     = mset [\<lparr>id' = ''e.s.h.FuzzyMatches''\<rparr>, \<lparr>id' = ''e.s.h.Default''\<rparr>]
   \<and> map_option mset
       (run_job AnswersAudit_map
        (case_option [] id \<circ> map_of
           [([(''reduce_type'', ''HandlerCounter''), (''rule_spec_str'', ''e.s.h.Default'')], ''x1''),
            ([(''reduce_type'', ''HandlerCounter''), (''rule_spec_str'', ''e.s.h.FuzzyMatches'')], ''x2''),
            ([(''reduce_type'', ''DefaultRuleCounter'')], ''y''),
            ([(''reduce_type'', ''FuzzyRuleCounter'')], ''z'')])
        (AnswersAudit_reduce
           (case_option (Inl ValueError) Inr \<circ> map_of
              [(''x1'', [(''reduce_type'', ''HandlerCounter''), (''rule_spec_str'', ''e.s.h.Default'')]),
               (''x2'', [(''reduce_type'', ''HandlerCounter''), (''rule_spec_str'', ''e.s.h.FuzzyMatches'')]),
               (''y'', [(''reduce_type'', ''DefaultRuleCounter'')]),
               (''z'', [(''reduce_type'', ''FuzzyRuleCounter'')])])
           concat)
        [''h'', ''Default'', ''FuzzyMatches'']
        [\<lparr>id' = ''e.s.h.Default''\<rparr>, \<lparr>id' = ''e.s.h.FuzzyMatches''\<rparr>])
     \<noteq> map_option mset
       (run_job AnswersAudit_map
        (case_option [] id \<circ> map_of
           [([(''reduce_type'', ''HandlerCounter''), (''rule_spec_str'', ''e.s.h.Default'')], ''x1''),
            ([(''reduce_type'', ''HandlerCounter''), (''rule_spec_str'', ''e.s.h.FuzzyMatches'')], ''x2''),
            ([(''reduce_type'', ''DefaultRuleCounter'')], ''y''),
            ([(''reduce_type'', ''FuzzyRuleCounter'')], ''z'')])
        (AnswersAudit_reduce
           (case_option (Inl ValueError) Inr \<circ> map_of
              [(''x1'', [(''reduce_type'', ''HandlerCounter''), (''rule_spec_str'', ''e.s.h.Default'')]),
               (''x2'', [(''reduce_type'', ''HandlerCounter''), (''rule_spec_str'', ''e.s.h.FuzzyMatches'')]),
               (''y'', [(''reduce_type'', ''DefaultRuleCounter'')]),
               (''z'', [(''reduce_type'', ''FuzzyRuleCounter'')])])
           concat)
        [''h'', ''Default'', ''FuzzyMatches'']
        [\<lparr>id' = ''e.s.h.FuzzyMatches''\<rparr>, \<lparr>id' = ''e.s.h.Default''\<rparr>])
   \<and> run_job StatisticsAudit_map
        (case_option [] id \<circ> map_of
           [(Annotation \<lparr>version = ''all'', starts = 1, completions = 0, state_hit = []\<rparr>, ''a''),
            (Annotation \<lparr>version = ''all'', starts = 2, completions = 0, state_hit = []\<rparr>, ''b'')])
        (StatisticsAudit_reduce
           (case_option (Inl ValueError) Inr \<circ> map_of
              [(''a'', \<lparr>version = ''all'', starts = 1, completions = 0, state_hit = []\<rparr>),
               (''b'', \<lparr>version = ''all'', starts = 2, completions = 0, state_hit = []\<rparr>)])
           ''all'')
        [''e1'']
        [ExplorationAnnotations \<lparr>exploration_id = Some ''e1'', version = ''all'', num_starts = 1,
           num_completions = 0, state_hit_counts = []\<rparr>,
         ExplorationAnnotations \<lparr>exploration_id = Some ''e1'', version = ''all'', num_starts = 2,
           num_completions = 0, state_hit_counts = []\<rparr>]
     = Some [''Non-all != all for starts: exp_id:e1 sum: 0 all: 2'']
   \<and> run_job StatisticsAudit_map
        (case_option [] id \<circ> map_of
           [(Annotation \<lparr>version = ''all'', starts = 1, completions = 0, state_hit = []\<rparr>, ''a''),
            (Annotation \<lparr>version = ''all'', starts = 2, completions = 0, state_hit = []\<rparr>, ''b'')])
        (StatisticsAudit_reduce
           (case_option (Inl ValueError) Inr \<circ> map_of
              [(''a'', \<lparr>version = ''all'', starts = 1, completions = 0, state_hit = []\<rparr>),
               (''b'', \<lparr>version = ''all'', starts = 2, completions = 0, state_hit = []\<rparr>)])
           ''all'')
        [''e1'']
        [ExplorationAnnotations \<lparr>exploration_id = Some ''e1'', version = ''all'', num_starts = 2,
           num_completions = 0, state_hit_counts = []\<rparr>,
         ExplorationAnnotations \<lparr>exploration_id = Some ''e1'', version = ''all'', num_starts = 1,
           num_completions = 0, state_hit_counts = []\<rparr>]
     = Some [''Non-all != all for starts: exp_id:e1 sum: 0 all: 1'']"
proof -
  let ?run = "run_job AnswersAudit_map
        (case_option [] id \<circ> map_of
           [([(''reduce_type'', ''HandlerCounter''), (''rule_spec_str'', ''e.s.h.Default'')], ''x1''),
            ([(''reduce_type'', ''HandlerCounter''), (''rule_spec_str'', ''e.s.h.FuzzyMatches'')], ''x2''),
            ([(''reduce_type'', ''DefaultRuleCounter'')], ''y''),
            ([(''reduce_type'', ''FuzzyRuleCounter'')], ''z'')])
        (AnswersAudit_reduce
           (case_option (Inl ValueError) Inr \<circ> map_of
              [(''x1'', [(''reduce_type'', ''HandlerCounter''), (''rule_spec_str'', ''e.s.h.Default'')]),
               (''x2'', [(''reduce_type'', ''HandlerCounter''), (''rule_spec_str'', ''e.s.h.FuzzyMatches'')]),
               (''y'', [(''reduce_type'', ''DefaultRuleCounter'')]),
               (''z'', [(''reduce_type'', ''FuzzyRuleCounter'')])])
           concat)
        [''h'', ''Default'', ''FuzzyMatches'']"
  have r1: "?run [\<lparr>id' = ''e.s.h.Default''\<rparr>, \<lparr>id' = ''e.s.h.FuzzyMatches''\<rparr>]
      = Some [''Found handler \"h\" 2 time(s), ALL RULE SPEC STRINGS: '' @ [CHR 0x0A]
                @ ''e.s.h.Defaulte.s.h.FuzzyMatches'',
              ''Found default rules 1 time(s)'', ''Found fuzzy rules 1 time(s)'']"
    by code_simp
  have r2: "?run [\<lparr>id' = ''e.s.h.FuzzyMatches''\<rparr>, \<lparr>id' = ''e.s.h.Default''\<rparr>]
      = Some [''Found handler \"h\" 2 time(s), ALL RULE SPEC STRINGS: '' @ [CHR 0x0A]
                @ ''e.s.h.FuzzyMatchese.s.h.Default'',
              ''Found default rules 1 time(s)'', ''Found fuzzy rules 1 time(s)'']"
    by code_simp
  have ne: "map_option mset (?run [\<lparr>id' = ''e.s.h.Default''\<rparr>, \<lparr>id' = ''e.s.h.FuzzyMatches''\<rparr>])
      \<noteq> map_option mset (?run [\<lparr>id' = ''e.s.h.FuzzyMatches''\<rparr>, \<lparr>id' = ''e.s.h.Default''\<rparr>])"
    unfolding r1 r2 by simp
  have perm: "mset [\<lparr>id' = ''e.s.h.Default''\<rparr>, \<lparr>id' = ''e.s.h.FuzzyMatches''\<rparr>]
     = mset [\<lparr>id' = ''e.s.h.FuzzyMatches''\<rparr>, \<lparr>id' = ''e.s.h.Default''\<rparr>]"
    by simp
  have s1: "run_job StatisticsAudit_map
        (case_option [] id \<circ> map_of
           [(Annotation \<lparr>version = ''all'', starts = 1, completions = 0, state_hit = []\<rparr>, ''a''),
            (Annotation \<lparr>version = ''all'', starts = 2, completions = 0, state_hit = []\<rparr>, ''b'')])
        (StatisticsAudit_reduce
           (case_option (Inl ValueError) Inr \<circ> map_of
              [(''a'', \<lparr>version = ''all'', starts = 1, completions = 0, state_hit = []\<rparr>),
               (''b'', \<lparr>version = ''all'', starts = 2, completions = 0, state_hit = []\<rparr>)])
           ''all'')
        [''e1'']
        [ExplorationAnnotations \<lparr>exploration_id = Some ''e1'', version = ''all'', num_starts = 1,
           num_completions = 0, state_hit_counts = []\<rparr>,
         ExplorationAnnotations \<lparr>exploration_id = Some ''e1'', version = ''all'', num_starts = 2,
           num_completions = 0, state_hit_counts = []\<rparr>]
     = Some [''Non-all != all for starts: exp_id:e1 sum: 0 all: 2'']"
    by code_simp
  have s2: "run_job StatisticsAudit_map
        (case_option [] id \<circ> map_of
           [(Annotation \<lparr>version = ''all'', starts = 1, completions = 0, state_hit = []\<rparr>, ''a''),
            (Annotation \<lparr>version = ''all'', starts = 2, completions = 0, state_hit = []\<rparr>, ''b'')])
        (StatisticsAudit_reduce
           (case_option (Inl ValueError) Inr \<circ> map_of
              [(''a'', \<lparr>version = ''all'', starts = 1, completions = 0, state_hit = []\<rparr>),
               (''b'', \<lparr>version = ''all'', starts = 2, completions = 0, state_hit = []\<rparr>)])
           ''all'')
        [''e1'']
        [ExplorationAnnotations \<lparr>exploration_id = Some ''e1'', version = ''all'', num_starts = 2,
           num_completions = 0, state_hit_counts = []\<rparr>,
         ExplorationAnnotations \<lparr>exploration_id = Some ''e1'', version = ''all'', num_starts = 1,
           num_completions = 0, state_hit_counts = []\<rparr>]
     = Some [''Non-all != all for starts: exp_id:e1 sum: 0 all: 1'']"
    by code_simp
  show ?thesis
    by (intro conjI) (rule perm ne s1 s2)+
qed

end
